theory Spec2Isabelle
  imports Main "HOL-Library.Sublist"
begin

section \<open>Strings and paths\<close>

text \<open>
  Python strings are modelled as \<open>string\<close> (a list of characters). The three
  library functions the reader calls on member names are written out here:
  \<open>str.endswith\<close>, \<open>os.path.splitext\<close> and \<open>os.path.dirname\<close>, the last two
  in their POSIX form (member names of a tar container use \<open>/\<close> as separator).
\<close>

definition endswith :: "string \<Rightarrow> string \<Rightarrow> bool" where
  "endswith s suf \<longleftrightarrow> length suf \<le> length s \<and> drop (length s - length suf) s = suf"

text \<open>\<open>s.rfind(c)\<close>: the highest index at which \<open>c\<close> occurs, \<open>-1\<close> when it does not occur.\<close>

primrec rfind_from :: "char \<Rightarrow> string \<Rightarrow> int \<Rightarrow> int \<Rightarrow> int" where
  "rfind_from c [] i found = found"
| "rfind_from c (y # ys) i found = rfind_from c ys (i + 1) (if y = c then i else found)"

definition rfind :: "string \<Rightarrow> char \<Rightarrow> int" where
  "rfind s c = rfind_from c s 0 (-1)"

text \<open>
  \<^verbatim>\<open>
  def _splitext(p, sep, altsep, extsep):
      sepIndex = p.rfind(sep)
      dotIndex = p.rfind(extsep)
      if dotIndex > sepIndex:
          # skip all leading dots
          filenameIndex = sepIndex + 1
          while filenameIndex < dotIndex:
              if p[filenameIndex:filenameIndex+1] != extsep:
                  return p[:dotIndex], p[dotIndex:]
              filenameIndex += 1
      return p, p[:0]
  \<close>
  The \<open>while\<close> loop is \<open>skip_dots\<close>: it answers whether some character between
  \<open>filenameIndex\<close> and \<open>dotIndex\<close> is not a dot.
\<close>

function skip_dots :: "string \<Rightarrow> nat \<Rightarrow> nat \<Rightarrow> bool" where
  "skip_dots p filenameIndex dotIndex =
     (if filenameIndex < dotIndex
      then (if take 1 (drop filenameIndex p) \<noteq> ''.'' then True
            else skip_dots p (filenameIndex + 1) dotIndex)
      else False)"
  by pat_completeness auto
termination
  by (relation "measure (\<lambda>(p, filenameIndex, dotIndex). dotIndex - filenameIndex)") auto

declare skip_dots.simps [simp del]

definition splitext :: "string \<Rightarrow> string \<times> string" where
  "splitext p =
     (let sepIndex = rfind p CHR ''/'';
          dotIndex = rfind p CHR ''.''
      in if dotIndex > sepIndex \<and> skip_dots p (nat (sepIndex + 1)) (nat dotIndex)
         then (take (nat dotIndex) p, drop (nat dotIndex) p)
         else (p, []))"

text \<open>
  \<^verbatim>\<open>
  def dirname(p):
      sep = _get_sep(p)
      i = p.rfind(sep) + 1
      head = p[:i]
      if head and head != sep*len(head):
          head = head.rstrip(sep)
      return head
  \<close>
\<close>

definition rstrip :: "string \<Rightarrow> char \<Rightarrow> string" where
  "rstrip s c = rev (dropWhile (\<lambda>y. y = c) (rev s))"

definition dirname :: "string \<Rightarrow> string" where
  "dirname p =
     (let i = rfind p CHR ''/'' + 1;
          head = take (nat i) p
      in if head \<noteq> [] \<and> head \<noteq> replicate (length head) CHR ''/''
         then rstrip head CHR ''/''
         else head)"

section \<open>Data model\<close>

text \<open>
  A member of the container as \<open>tarfile.TarInfo\<close> describes it: its name, its
  one-byte type, the offset of its payload in the container and the payload's
  length. \<open>isdir\<close> and \<open>isfile\<close> are the library's tests on the type byte
  (\<open>DIRTYPE\<close> is \<open>5\<close>; the regular types are \<open>0\<close>, NUL, \<open>7\<close> and \<open>S\<close>).
\<close>

record TarInfo =
  name :: string
  type_m :: char
  offset_data :: int
  size_m :: int

definition isdir :: "TarInfo \<Rightarrow> bool" where
  "isdir memb \<longleftrightarrow> type_m memb = CHR ''5''"

definition isfile :: "TarInfo \<Rightarrow> bool" where
  "isfile memb \<longleftrightarrow> type_m memb \<in> set [CHR ''0'', CHR 0x00, CHR ''7'', CHR ''S'']"

text \<open>
  The four suffixes are imported from the archive writer's module, which is
  not part of the sources at hand; every definition below takes them as a
  parameter, so that each result holds whatever their values are.
\<close>

record exts =
  SIGMF_COLLECTION_EXT :: string
  SIGMF_DATASET_EXT :: string
  SIGMF_METADATA_EXT :: string
  SIGMF_ARCHIVE_EXT :: string

text \<open>\<open>class ArchiveRecording\<close>: the members found for one recording.\<close>

record ArchiveRecording =
  metadata :: "TarInfo option"
  data :: "TarInfo option"

definition ArchiveRecording_init :: ArchiveRecording where
  "ArchiveRecording_init = \<lparr>metadata = None, data = None\<rparr>"

text \<open>
  Modelled from the spec: \<open>SigMFFile\<close> (its module is not part of the sources).
  The constructor keeps the name and the metadata bytes it is given; a
  successful \<open>set_data_file\<close> attaches a lazy dataset reference, which is the
  record of the arguments of that call (source path or buffer, offset and size
  in bytes, and the two flags); no payload byte is read.
\<close>

record data_file_ref =
  df_path :: "string option"
  df_buffer :: "nat option"
  df_skip_checksum :: bool
  df_offset :: int
  df_size_bytes :: int
  df_map_readonly :: bool

record SigMFFile =
  sf_name :: string
  sf_metadata :: string
  sf_data :: "data_file_ref option"

datatype error =
    SigMFFileError string
  | ValueError string
  | AttributeError
  | ValidationError string
  | ExternalError string

datatype event =
    TarOpen
  | GetMembers
  | Print "string list"
  | ReadMember TarInfo
  | SetDataFile data_file_ref
  | Warn string
  | TarClose

text \<open>
  What the collaborators answer. Each of them may raise: \<open>tarfile.open\<close>,
  \<open>getmembers\<close>, reading a member's bytes, the constructor of \<open>SigMFFile\<close>, its
  \<open>validate\<close> and its \<open>set_data_file\<close>. An in-memory buffer is a \<open>nat\<close> naming
  the buffer object.
\<close>

record env =
  tarfile_open :: "string option \<Rightarrow> nat option \<Rightarrow> error option"
  getmembers :: "error + TarInfo list"
  extract_read :: "TarInfo \<Rightarrow> error + string"
  sigmffile_init :: "string \<Rightarrow> string \<Rightarrow> error option"
  validate :: "SigMFFile \<Rightarrow> error option"
  set_data_file :: "SigMFFile \<Rightarrow> data_file_ref \<Rightarrow> error option"

section \<open>The grouping pass\<close>

text \<open>
  \<open>recordings.append(recording)\<close> stores a reference to the object that
  \<open>recording\<close> names, and the assignments \<open>recording.metadata = memb\<close> and
  \<open>recording.data = memb\<close> mutate that object. The pass is therefore modelled
  over an explicit store: \<open>heap\<close> holds the \<open>ArchiveRecording\<close> objects created
  so far, an address is an index into it, \<open>recordings\<close> is the list of
  addresses appended so far and \<open>recording\<close> the address the local variable
  holds. \<open>printed\<close> collects what the pass prints.
\<close>

record scan_state =
  heap :: "ArchiveRecording list"
  recordings :: "nat list"
  recording :: nat
  printed :: "event list"

definition scan_init :: scan_state where
  "scan_init = \<lparr>heap = [ArchiveRecording_init], recordings = [], recording = 0, printed = []\<rparr>"

definition new_recording :: "scan_state \<Rightarrow> scan_state" where
  "new_recording s = s\<lparr>heap := heap s @ [ArchiveRecording_init], recording := length (heap s)\<rparr>"

definition set_metadata :: "scan_state \<Rightarrow> TarInfo \<Rightarrow> scan_state" where
  "set_metadata s memb =
     s\<lparr>heap := (heap s)[recording s := (heap s ! recording s)\<lparr>metadata := Some memb\<rparr>]\<rparr>"

definition set_data :: "scan_state \<Rightarrow> TarInfo \<Rightarrow> scan_state" where
  "set_data s memb =
     s\<lparr>heap := (heap s)[recording s := (heap s ! recording s)\<lparr>data := Some memb\<rparr>]\<rparr>"

definition scan_member :: "exts \<Rightarrow> scan_state \<Rightarrow> TarInfo \<Rightarrow> scan_state" where
  "scan_member x s memb =
     (if isdir memb then s
      else if isfile memb then
        (if endswith (name memb) (SIGMF_METADATA_EXT x) then
           set_metadata
             (if metadata (heap s ! recording s) \<noteq> None
              then new_recording (s\<lparr>recordings := recordings s @ [recording s]\<rparr>)
              else s)
             memb
         else if endswith (name memb) (SIGMF_DATASET_EXT x) then
           set_data s memb
         else if endswith (name memb) (SIGMF_COLLECTION_EXT x) then
           s\<lparr>printed := printed s @
                [Print [''A SigMF Collection file '', name memb, ''was found but not handled.'']]\<rparr>
         else
           s\<lparr>printed := printed s @
                [Print [''A regular file'', name memb, ''was found but ignored in the archive'']]\<rparr>)
      else
        s\<lparr>printed := printed s @
             [Print [''A member of type'', [type_m memb], ''and name'', name memb,
                     ''was found but not handled, just FYI.'']]\<rparr>)"

primrec scan_members :: "exts \<Rightarrow> scan_state \<Rightarrow> TarInfo list \<Rightarrow> scan_state" where
  "scan_members x s [] = s"
| "scan_members x s (memb # membs) = scan_members x (scan_member x s memb) membs"

text \<open>After the loop: \<open>if recording.metadata: recordings.append(recording)\<close>.\<close>

definition save_final :: "scan_state \<Rightarrow> scan_state" where
  "save_final s =
     (if metadata (heap s ! recording s) \<noteq> None
      then s\<lparr>recordings := recordings s @ [recording s]\<rparr>
      else s)"

definition group_members :: "exts \<Rightarrow> TarInfo list \<Rightarrow> scan_state" where
  "group_members x membs = save_final (scan_members x scan_init membs)"

text \<open>The objects the list \<open>recordings\<close> refers to, in list order.\<close>

definition deref :: "scan_state \<Rightarrow> ArchiveRecording list" where
  "deref s = map (\<lambda>a. heap s ! a) (recordings s)"

section \<open>Loading the recordings\<close>

text \<open>
  One turn of the second loop. A recording without metadata never reaches
  this loop; the attribute access \<open>metadata.name\<close> on \<open>None\<close> would raise.
\<close>

definition load_recording ::
  "env \<Rightarrow> string option \<Rightarrow> bool \<Rightarrow> bool \<Rightarrow> nat option \<Rightarrow> ArchiveRecording
     \<Rightarrow> (error + SigMFFile) \<times> event list" where
  "load_recording e path skip_checksum map_readonly archive_buffer rec =
     (case metadata rec of
        None \<Rightarrow> (Inl AttributeError, [])
      | Some md \<Rightarrow>
          (let sigmffile_name = dirname (fst (splitext (name md))) in
           case extract_read e md of
             Inl err \<Rightarrow> (Inl err, [ReadMember md])
           | Inr json_contents \<Rightarrow>
               (case sigmffile_init e sigmffile_name json_contents of
                  Some err \<Rightarrow> (Inl err, [ReadMember md])
                | None \<Rightarrow>
                    (let sigmffile = \<lparr>sf_name = sigmffile_name, sf_metadata = json_contents,
                                      sf_data = None\<rparr> in
                     case validate e sigmffile of
                       Some err \<Rightarrow> (Inl err, [ReadMember md])
                     | None \<Rightarrow>
                         (case data rec of
                            None \<Rightarrow> (Inr sigmffile, [ReadMember md])
                          | Some d \<Rightarrow>
                              (let ref = \<lparr>df_path = path, df_buffer = archive_buffer,
                                          df_skip_checksum = skip_checksum,
                                          df_offset = offset_data d, df_size_bytes = size_m d,
                                          df_map_readonly = map_readonly\<rparr> in
                               case set_data_file e sigmffile ref of
                                 Some err \<Rightarrow> (Inl err, [ReadMember md, SetDataFile ref])
                               | None \<Rightarrow> (Inr (sigmffile\<lparr>sf_data := Some ref\<rparr>),
                                           [ReadMember md, SetDataFile ref])))))))"

fun load_recordings ::
  "env \<Rightarrow> string option \<Rightarrow> bool \<Rightarrow> bool \<Rightarrow> nat option \<Rightarrow> ArchiveRecording list
     \<Rightarrow> SigMFFile list \<Rightarrow> (error + SigMFFile list) \<times> event list" where
  "load_recordings e path skip_checksum map_readonly archive_buffer [] sigmffiles =
     (Inr sigmffiles, [])"
| "load_recordings e path skip_checksum map_readonly archive_buffer (rec # recs) sigmffiles =
     (case load_recording e path skip_checksum map_readonly archive_buffer rec of
        (Inl err, tr) \<Rightarrow> (Inl err, tr)
      | (Inr sigmffile, tr) \<Rightarrow>
          (case load_recordings e path skip_checksum map_readonly archive_buffer recs
                  (sigmffiles @ [sigmffile]) of
             (res, tr') \<Rightarrow> (res, tr @ tr')))"

section \<open>Opening an archive\<close>

text \<open>
  The first statements of the \<open>try\<close> block: they either leave \<open>tar_obj\<close> at
  \<open>None\<close> and raise, or bind it to an open container.
\<close>

definition acquire ::
  "exts \<Rightarrow> env \<Rightarrow> string option \<Rightarrow> nat option \<Rightarrow> (error + unit) \<times> event list" where
  "acquire x e path archive_buffer =
     (case path of
        Some p \<Rightarrow>
          (if \<not> endswith p (SIGMF_ARCHIVE_EXT x)
           then (Inl (SigMFFileError (''archive extension != '' @ SIGMF_ARCHIVE_EXT x)), [])
           else (case tarfile_open e path None of
                   Some err \<Rightarrow> (Inl err, [TarOpen])
                 | None \<Rightarrow> (Inr (), [TarOpen])))
      | None \<Rightarrow>
          (case archive_buffer of
             Some b \<Rightarrow>
               (case tarfile_open e None archive_buffer of
                  Some err \<Rightarrow> (Inl err, [TarOpen])
                | None \<Rightarrow> (Inr (), [TarOpen]))
           | None \<Rightarrow>
               (Inl (ValueError (''In sigmf.archivereader.__init__(), either '' @
                                 ''`path` or `archive_buffer` must be not None'')), [])))"

text \<open>The rest of the \<open>try\<close> block, run with the container open.\<close>

definition parse_members ::
  "exts \<Rightarrow> env \<Rightarrow> string option \<Rightarrow> bool \<Rightarrow> bool \<Rightarrow> nat option
     \<Rightarrow> (error + SigMFFile list) \<times> event list" where
  "parse_members x e path skip_checksum map_readonly archive_buffer =
     (case getmembers e of
        Inl err \<Rightarrow> (Inl err, [GetMembers])
      | Inr membs \<Rightarrow>
          (let s = group_members x membs;
               recs = deref s
           in case load_recordings e path skip_checksum map_readonly archive_buffer recs [] of
                (Inl err, tr) \<Rightarrow> (Inl err, GetMembers # printed s @ tr)
              | (Inr sigmffiles, tr) \<Rightarrow>
                  (Inr sigmffiles,
                   GetMembers # printed s @ tr @
                     (if \<not> list_ex (\<lambda>r. data r \<noteq> None) recs
                      then [Warn (''No file with '' @ SIGMF_DATASET_EXT x @
                                  '' extension found in archive!'')]
                      else []))))"

text \<open>
  \<open>SigMFArchiveReader.__init__\<close>: the result is the list \<open>self.sigmffiles\<close> of
  the reader, or the exception that leaves the constructor, together with the
  trace of what was done. The \<open>finally\<close> clause closes the container whenever
  \<open>tar_obj\<close> was bound.
\<close>

definition SigMFArchiveReader_init ::
  "exts \<Rightarrow> env \<Rightarrow> string option \<Rightarrow> bool \<Rightarrow> bool \<Rightarrow> nat option
     \<Rightarrow> (error + SigMFFile list) \<times> event list" where
  "SigMFArchiveReader_init x e path skip_checksum map_readonly archive_buffer =
     (case acquire x e path archive_buffer of
        (Inl err, tr) \<Rightarrow> (Inl err, tr)
      | (Inr u, tr) \<Rightarrow>
          (case parse_members x e path skip_checksum map_readonly archive_buffer of
             (res, tr') \<Rightarrow> (res, tr @ tr' @ [TarClose])))"

section \<open>Value-level reading of the grouping pass\<close>

text \<open>
  The two branches of the pass that change a recording, as predicates on a
  member: \<open>is_meta\<close> holds when the member takes the metadata branch,
  \<open>is_data\<close> when it takes the dataset branch (so a regular member whose name
  ends in both suffixes is a metadata entry).
\<close>

definition is_meta :: "exts \<Rightarrow> TarInfo \<Rightarrow> bool" where
  "is_meta x memb \<longleftrightarrow>
     \<not> isdir memb \<and> isfile memb \<and> endswith (name memb) (SIGMF_METADATA_EXT x)"

definition is_data :: "exts \<Rightarrow> TarInfo \<Rightarrow> bool" where
  "is_data x memb \<longleftrightarrow>
     \<not> isdir memb \<and> isfile memb \<and> \<not> endswith (name memb) (SIGMF_METADATA_EXT x)
       \<and> endswith (name memb) (SIGMF_DATASET_EXT x)"

text \<open>
  The same pass on values instead of addresses: the state is the list of
  completed recordings and the current one. \<open>scan_member_view\<close> below shows
  that the store model computes exactly this, so that the properties of the
  grouping can be proved on lists.
\<close>

definition group_step ::
  "exts \<Rightarrow> ArchiveRecording list \<times> ArchiveRecording \<Rightarrow> TarInfo
     \<Rightarrow> ArchiveRecording list \<times> ArchiveRecording" where
  "group_step x st memb =
     (if is_meta x memb then
        (if metadata (snd st) \<noteq> None
         then (fst st @ [snd st], \<lparr>metadata = Some memb, data = None\<rparr>)
         else (fst st, (snd st)\<lparr>metadata := Some memb\<rparr>))
      else if is_data x memb then (fst st, (snd st)\<lparr>data := Some memb\<rparr>)
      else st)"

primrec group_run ::
  "exts \<Rightarrow> ArchiveRecording list \<times> ArchiveRecording \<Rightarrow> TarInfo list
     \<Rightarrow> ArchiveRecording list \<times> ArchiveRecording" where
  "group_run x st [] = st"
| "group_run x st (memb # membs) = group_run x (group_step x st memb) membs"

definition group_final :: "ArchiveRecording list \<times> ArchiveRecording \<Rightarrow> ArchiveRecording list" where
  "group_final st = (if metadata (snd st) \<noteq> None then fst st @ [snd st] else fst st)"

text \<open>
  \<open>view\<close> reads the value-level state off a store; \<open>wf_state\<close> is the
  invariant of the pass: the current address is allocated and every address
  already on the list is older than it, so no alias of a listed object is ever
  written through.
\<close>

definition view :: "scan_state \<Rightarrow> ArchiveRecording list \<times> ArchiveRecording" where
  "view s = (deref s, heap s ! recording s)"

definition wf_state :: "scan_state \<Rightarrow> bool" where
  "wf_state s \<longleftrightarrow> recording s < length (heap s) \<and> list_all (\<lambda>a. a < recording s) (recordings s)"

text \<open>
  \<open>groups_of x r membs\<close> is the final grouping when the pass starts with the
  current recording \<open>r\<close> and an empty list; \<open>last_data\<close> is the last dataset
  entry of a run of entries, if there is one.
\<close>

definition groups_of :: "exts \<Rightarrow> ArchiveRecording \<Rightarrow> TarInfo list \<Rightarrow> ArchiveRecording list" where
  "groups_of x r membs = group_final (group_run x ([], r) membs)"

definition last_data :: "exts \<Rightarrow> TarInfo list \<Rightarrow> TarInfo option" where
  "last_data x membs = (case rev (filter (is_data x) membs) of [] \<Rightarrow> None | d # ds \<Rightarrow> Some d)"

section \<open>Notions used in the statements\<close>

text \<open>
  \<open>built_from\<close> relates a grouped recording to the \<open>SigMFFile\<close> the second loop
  makes of it when nothing raises: the name derived from the metadata
  member's name, the bytes read from that member, and the dataset reference
  made of the data member, if there is one.
\<close>

definition built_from ::
  "env \<Rightarrow> string option \<Rightarrow> bool \<Rightarrow> bool \<Rightarrow> nat option \<Rightarrow> ArchiveRecording \<Rightarrow> SigMFFile \<Rightarrow> bool" where
  "built_from e path skip_checksum map_readonly archive_buffer rec f \<longleftrightarrow>
     (case metadata rec of
        None \<Rightarrow> False
      | Some md \<Rightarrow> sf_name f = dirname (fst (splitext (name md)))
                    \<and> extract_read e md = Inr (sf_metadata f))
     \<and> sf_data f =
         map_option
           (\<lambda>d. \<lparr>df_path = path, df_buffer = archive_buffer, df_skip_checksum = skip_checksum,
                 df_offset = offset_data d, df_size_bytes = size_m d,
                 df_map_readonly = map_readonly\<rparr>)
           (data rec)"

text \<open>The metadata of a recording is read and constructed, and \<open>validate\<close> raises \<open>err\<close>.\<close>

definition validation_fails :: "env \<Rightarrow> ArchiveRecording \<Rightarrow> error \<Rightarrow> bool" where
  "validation_fails e rec err \<longleftrightarrow>
     (case metadata rec of
        None \<Rightarrow> False
      | Some md \<Rightarrow>
          (case extract_read e md of
             Inl err' \<Rightarrow> False
           | Inr json_contents \<Rightarrow>
               sigmffile_init e (dirname (fst (splitext (name md)))) json_contents = None
               \<and> validate e \<lparr>sf_name = dirname (fst (splitext (name md))),
                               sf_metadata = json_contents, sf_data = None\<rparr> = Some err))"

text \<open>The metadata member \<open>md\<close> is read, constructed and validated without an exception.\<close>

definition metadata_loads :: "env \<Rightarrow> TarInfo \<Rightarrow> bool" where
  "metadata_loads e md \<longleftrightarrow>
     (case extract_read e md of
        Inl err \<Rightarrow> False
      | Inr json_contents \<Rightarrow>
          sigmffile_init e (dirname (fst (splitext (name md)))) json_contents = None
          \<and> validate e \<lparr>sf_name = dirname (fst (splitext (name md))),
                          sf_metadata = json_contents, sf_data = None\<rparr> = None)"

fun is_warning :: "event \<Rightarrow> bool" where
  "is_warning (Warn msg) = True"
| "is_warning ev = False"

fun is_print :: "event \<Rightarrow> bool" where
  "is_print (Print args) = True"
| "is_print ev = False"

fun is_load_event :: "event \<Rightarrow> bool" where
  "is_load_event (ReadMember memb) = True"
| "is_load_event (SetDataFile ref) = True"
| "is_load_event ev = False"

section \<open>Example inputs\<close>

text \<open>
  Suffixes as the scenarios of the specification abbreviate them, a regular
  member with a given name, payload offset and length, and collaborators that
  never raise (the bytes of a member are taken to be its name).
\<close>

definition exts_ex :: exts where
  "exts_ex = \<lparr>SIGMF_COLLECTION_EXT = ''.collection'', SIGMF_DATASET_EXT = ''.data'',
              SIGMF_METADATA_EXT = ''.meta'', SIGMF_ARCHIVE_EXT = ''.sigmf''\<rparr>"

definition member_ex :: "string \<Rightarrow> int \<Rightarrow> int \<Rightarrow> TarInfo" where
  "member_ex n off sz = \<lparr>name = n, type_m = CHR ''0'', offset_data = off, size_m = sz\<rparr>"

definition env_ex :: "TarInfo list \<Rightarrow> env" where
  "env_ex membs =
     \<lparr>tarfile_open = (\<lambda>p b. None), getmembers = Inr membs,
      extract_read = (\<lambda>memb. Inr (name memb)), sigmffile_init = (\<lambda>n j. None),
      validate = (\<lambda>f. None), set_data_file = (\<lambda>f r. None)\<rparr>"

text \<open>
  Two recordings stored as \<open>name/name.suffix\<close>, and collaborators of which
  \<open>validate\<close> raises for the recording named \<open>rec2\<close>.
\<close>

definition archive_ex :: "TarInfo list" where
  "archive_ex = [member_ex ''rec1/rec1.meta'' 512 10, member_ex ''rec1/rec1.data'' 1024 100,
                 member_ex ''rec2/rec2.meta'' 1536 10, member_ex ''rec2/rec2.data'' 2048 50]"

definition env_invalid :: "TarInfo list \<Rightarrow> env" where
  "env_invalid membs =
     (env_ex membs)\<lparr>validate :=
        (\<lambda>f. if sf_name f = ''rec2'' then Some (ValidationError ''invalid'') else None)\<rparr>"

text \<open>
  Three recordings, the second without a dataset entry; a container that
  starts with a dataset entry; and a recording with two dataset entries.
\<close>

definition archive_mixed :: "TarInfo list" where
  "archive_mixed = [member_ex ''rec1/rec1.meta'' 512 10, member_ex ''rec1/rec1.data'' 1024 100,
                    member_ex ''rec2/rec2.meta'' 1536 10,
                    member_ex ''rec3/rec3.meta'' 2048 10, member_ex ''rec3/rec3.data'' 2560 50]"

definition archive_leading_data :: "TarInfo list" where
  "archive_leading_data = [member_ex ''x.data'' 512 100,
                           member_ex ''rec1/rec1.meta'' 1024 10,
                           member_ex ''rec2/rec2.meta'' 1536 10]"

definition archive_two_data :: "TarInfo list" where
  "archive_two_data = [member_ex ''rec1/rec1.meta'' 512 10,
                       member_ex ''rec1/a.data'' 1024 100, member_ex ''rec1/b.data'' 1536 50]"

text \<open>Three recordings without any dataset entry, and a member that is ignored.\<close>

definition archive_meta_only :: "TarInfo list" where
  "archive_meta_only = [member_ex ''a/a.meta'' 512 10, member_ex ''notes.txt'' 1024 5,
                        member_ex ''b/b.meta'' 1536 20, member_ex ''c/c.meta'' 2048 30]"

section \<open>The store model and its value-level reading\<close>

lemma wf_scan_init: "wf_state scan_init"
  by (simp add: wf_state_def scan_init_def)

lemma map_nth_update_other:
  "list_all (\<lambda>a. a < r) as \<Longrightarrow> map (\<lambda>a. (h[r := v]) ! a) as = map (\<lambda>a. h ! a) as"
  by (induction as) auto

lemma map_nth_append_other:
  "list_all (\<lambda>a. a < length h) as \<Longrightarrow> map (\<lambda>a. (h @ g) ! a) as = map (\<lambda>a. h ! a) as"
  by (induction as) (auto simp: nth_append)

lemma list_all_mono_less:
  "list_all (\<lambda>a. a < r) as \<Longrightarrow> r \<le> r' \<Longrightarrow> list_all (\<lambda>a. a < (r'::nat)) as"
  by (induction as) auto

lemma scan_member_view:
  assumes "wf_state s"
  shows "view (scan_member x s memb) = group_step x (view s) memb"
proof -
  from assms have r: "recording s < length (heap s)"
    and a: "list_all (\<lambda>a. a < recording s) (recordings s)"
    by (simp_all add: wf_state_def)
  from a r have al: "list_all (\<lambda>a. a < length (heap s)) (recordings s)"
    by (auto simp: list_all_iff)
  show ?thesis
    using r a al
    by (simp add: scan_member_def group_step_def is_meta_def is_data_def view_def deref_def
        set_metadata_def set_data_def new_recording_def ArchiveRecording_init_def
        map_nth_update_other map_nth_append_other nth_append)
qed

lemma scan_member_wf:
  assumes "wf_state s"
  shows "wf_state (scan_member x s memb)"
  using assms
  by (auto simp add: scan_member_def wf_state_def set_metadata_def set_data_def
      new_recording_def list_all_iff intro: less_trans)

lemma scan_members_view:
  "wf_state s \<Longrightarrow> view (scan_members x s membs) = group_run x (view s) membs
     \<and> wf_state (scan_members x s membs)"
  by (induction membs arbitrary: s) (simp_all add: scan_member_view scan_member_wf)

lemma view_scan_init: "view scan_init = ([], ArchiveRecording_init)"
  by (simp add: view_def deref_def scan_init_def)

lemma deref_save_final: "deref (save_final s) = group_final (view s)"
  by (simp add: save_final_def group_final_def view_def deref_def)

lemma deref_group_members:
  "deref (group_members x membs) = group_final (group_run x ([], ArchiveRecording_init) membs)"
  using scan_members_view[OF wf_scan_init, of x membs]
  by (simp add: group_members_def deref_save_final view_scan_init)

lemma group_final_run_shift:
  "group_final (group_run x (rs, r) membs) = rs @ group_final (group_run x ([], r) membs)"
proof (induction membs arbitrary: rs r)
  case Nil
  show ?case by (simp add: group_final_def)
next
  case (Cons m membs)
  show ?case
    using Cons.IH[of "rs @ [r]"] Cons.IH[of rs] Cons.IH[of "[r]"] Cons.IH[of "[]"]
    by (simp add: group_step_def)
qed

lemma groups_of_Nil: "groups_of x r [] = (if metadata r \<noteq> None then [r] else [])"
  by (simp add: groups_of_def group_final_def)

lemma groups_of_Cons:
  "groups_of x r (m # membs) =
     (if is_meta x m then
        (if metadata r \<noteq> None then r # groups_of x \<lparr>metadata = Some m, data = None\<rparr> membs
         else groups_of x (r\<lparr>metadata := Some m\<rparr>) membs)
      else if is_data x m then groups_of x (r\<lparr>data := Some m\<rparr>) membs
      else groups_of x r membs)"
  using group_final_run_shift[of x "[r]"]
  by (simp add: groups_of_def group_step_def)

lemma deref_groups_of: "deref (group_members x membs) = groups_of x ArchiveRecording_init membs"
  by (simp add: deref_group_members groups_of_def)

lemma is_meta_not_data: "is_meta x m \<Longrightarrow> \<not> is_data x m"
  by (simp add: is_meta_def is_data_def)

lemma groups_of_metadata:
  "map metadata (groups_of x r membs) =
     (case metadata r of None \<Rightarrow> [] | Some m0 \<Rightarrow> [Some m0]) @ map Some (filter (is_meta x) membs)"
  by (induction membs arbitrary: r) (auto simp: groups_of_Nil groups_of_Cons split: option.splits)

lemma last_data_Cons:
  "last_data x (m # membs) =
     (case last_data x membs of Some d \<Rightarrow> Some d
      | None \<Rightarrow> if is_data x m then Some m else None)"
  by (auto simp: last_data_def split: list.splits)

lemma last_data_Nil: "last_data x [] = None"
  by (simp add: last_data_def)

text \<open>The current recording after a run of entries none of which is a metadata entry.\<close>

lemma groups_of_no_meta:
  "list_all (\<lambda>m. \<not> is_meta x m) seg \<Longrightarrow>
   groups_of x r (seg @ rest) =
     groups_of x (r\<lparr>data := (case last_data x seg of Some d \<Rightarrow> Some d | None \<Rightarrow> data r)\<rparr>) rest"
proof (induction seg arbitrary: r)
  case Nil
  show ?case by (simp add: last_data_Nil)
next
  case (Cons m seg)
  then show ?case
    by (cases "last_data x seg") (simp_all add: groups_of_Cons last_data_Cons)
qed

lemma groups_of_hd:
  assumes "metadata r \<noteq> None"
  shows "\<exists>tl. groups_of x r membs =
     r\<lparr>data := (case last_data x (takeWhile (\<lambda>m. \<not> is_meta x m) membs) of
                  Some d \<Rightarrow> Some d | None \<Rightarrow> data r)\<rparr> # tl"
proof -
  let ?seg = "takeWhile (\<lambda>m. \<not> is_meta x m) membs"
  let ?rest = "dropWhile (\<lambda>m. \<not> is_meta x m) membs"
  let ?r = "r\<lparr>data := (case last_data x ?seg of Some d \<Rightarrow> Some d | None \<Rightarrow> data r)\<rparr>"
  have seg: "list_all (\<lambda>m. \<not> is_meta x m) ?seg"
    by (auto simp: list_all_iff dest: set_takeWhileD)
  have "groups_of x r membs = groups_of x r (?seg @ ?rest)" by simp
  also have "\<dots> = groups_of x ?r ?rest" by (rule groups_of_no_meta[OF seg])
  finally have eq: "groups_of x r membs = groups_of x ?r ?rest" .
  have md: "metadata ?r \<noteq> None" using assms by simp
  show ?thesis
  proof (cases ?rest)
    case Nil
    with eq md show ?thesis by (simp add: groups_of_Nil)
  next
    case (Cons m ms)
    then have "is_meta x m" using hd_dropWhile[of "\<lambda>m. \<not> is_meta x m" membs] by auto
    with eq md Cons show ?thesis by (simp add: groups_of_Cons)
  qed
qed

text \<open>Splitting the run at a metadata entry.\<close>

lemma groups_of_split:
  assumes "is_meta x m"
  shows "groups_of x r (pre @ m # rest) =
           groups_of x r pre @
           groups_of x \<lparr>metadata = Some m,
                        data = (if metadata r = None \<and> filter (is_meta x) pre = []
                                then (case last_data x pre of Some d \<Rightarrow> Some d | None \<Rightarrow> data r)
                                else None)\<rparr> rest"
proof (induction pre arbitrary: r)
  case Nil
  have "groups_of x (r\<lparr>metadata := Some m\<rparr>) rest =
        groups_of x \<lparr>metadata = Some m, data = data r\<rparr> rest"
    by (rule arg_cong[where f = "\<lambda>q. groups_of x q rest"]) simp
  with assms show ?case
    by (simp add: groups_of_Cons groups_of_Nil last_data_Nil)
next
  case (Cons p pre)
  show ?case
    using Cons.IH[of "r\<lparr>metadata := Some p\<rparr>"] Cons.IH[of "\<lparr>metadata = Some p, data = None\<rparr>"]
      Cons.IH[of "r\<lparr>data := Some p\<rparr>"] Cons.IH[of r]
    by (cases "last_data x pre") (simp_all add: groups_of_Cons last_data_Cons is_meta_not_data)
qed

lemma groups_of_length:
  "length (groups_of x r membs) =
     (if metadata r \<noteq> None then 1 else 0) + length (filter (is_meta x) membs)"
  using arg_cong[OF groups_of_metadata[of x r membs], of length]
  by (simp split: option.splits)

lemma groups_of_nth:
  assumes "is_meta x m"
  shows "groups_of x ArchiveRecording_init (pre @ m # rest) ! length (filter (is_meta x) pre) =
     \<lparr>metadata = Some m,
      data = (case last_data x (takeWhile (\<lambda>m. \<not> is_meta x m) rest) of
                Some d \<Rightarrow> Some d
              | None \<Rightarrow> if filter (is_meta x) pre = [] then last_data x pre else None)\<rparr>"
proof -
  let ?carry = "if filter (is_meta x) pre = [] then last_data x pre else None"
  have split: "groups_of x ArchiveRecording_init (pre @ m # rest) =
      groups_of x ArchiveRecording_init pre @ groups_of x \<lparr>metadata = Some m, data = ?carry\<rparr> rest"
    using groups_of_split[OF assms, of ArchiveRecording_init pre rest]
    by (cases "last_data x pre") (simp_all add: ArchiveRecording_init_def)
  have len: "length (groups_of x ArchiveRecording_init pre) = length (filter (is_meta x) pre)"
    by (simp add: groups_of_length ArchiveRecording_init_def)
  obtain tl where hd: "groups_of x \<lparr>metadata = Some m, data = ?carry\<rparr> rest =
      \<lparr>metadata = Some m, data = ?carry\<rparr>\<lparr>data :=
         (case last_data x (takeWhile (\<lambda>m. \<not> is_meta x m) rest) of
            Some d \<Rightarrow> Some d | None \<Rightarrow> data \<lparr>metadata = Some m, data = ?carry\<rparr>)\<rparr> # tl"
    using groups_of_hd[of "\<lparr>metadata = Some m, data = ?carry\<rparr>" x rest] by auto
  show ?thesis
    unfolding split hd using len
    by (simp add: nth_append split: option.splits)
qed

text \<open>What is already on the list \<open>recordings\<close> is kept by every further step.\<close>

lemma scan_members_append:
  "scan_members x s (as @ bs) = scan_members x (scan_members x s as) bs"
  by (induction as arbitrary: s) simp_all

lemma scan_member_keep:
  assumes "wf_state s"
  shows "prefix (recordings s) (recordings (scan_member x s memb))
       \<and> list_all (\<lambda>a. heap (scan_member x s memb) ! a = heap s ! a) (recordings s)"
proof -
  from assms have r: "recording s < length (heap s)"
    and a: "\<forall>a\<in>set (recordings s). a < recording s"
    by (simp_all add: wf_state_def list_all_iff)
  show ?thesis
    using r a
    by (auto simp: scan_member_def set_metadata_def set_data_def new_recording_def
        list_all_iff nth_append nth_list_update)
qed

lemma scan_members_keep:
  assumes "wf_state s"
  shows "prefix (recordings s) (recordings (scan_members x s membs))
       \<and> list_all (\<lambda>a. heap (scan_members x s membs) ! a = heap s ! a) (recordings s)"
  using assms
proof (induction membs arbitrary: s)
  case Nil
  show ?case by (simp add: list_all_iff)
next
  case (Cons m membs)
  let ?s1 = "scan_member x s m"
  from scan_member_wf[OF Cons.prems] have wf1: "wf_state ?s1" .
  from scan_member_keep[OF Cons.prems, of x m] have
    p1: "prefix (recordings s) (recordings ?s1)" and
    h1: "\<forall>a\<in>set (recordings s). heap ?s1 ! a = heap s ! a"
    by (simp_all add: list_all_iff)
  from Cons.IH[OF wf1] have
    p2: "prefix (recordings ?s1) (recordings (scan_members x ?s1 membs))" and
    h2: "\<forall>a\<in>set (recordings ?s1). heap (scan_members x ?s1 membs) ! a = heap ?s1 ! a"
    by (simp_all add: list_all_iff)
  from p1 have sub: "set (recordings s) \<subseteq> set (recordings ?s1)"
    by (rule set_mono_prefix)
  from p1 p2 have "prefix (recordings s) (recordings (scan_members x ?s1 membs))"
    by (rule prefix_order.trans)
  moreover from sub h1 h2 have
    "\<forall>a\<in>set (recordings s). heap (scan_members x ?s1 membs) ! a = heap s ! a"
    by auto
  ultimately show ?case by (simp add: list_all_iff)
qed

section \<open>Path functions\<close>

lemma rfind_from_append:
  "rfind_from c (as @ bs) i f = rfind_from c bs (i + int (length as)) (rfind_from c as i f)"
  by (induction as arbitrary: i f) (simp_all add: algebra_simps)

lemma rfind_from_notin: "c \<notin> set bs \<Longrightarrow> rfind_from c bs i f = f"
  by (induction bs arbitrary: i f) auto

lemma rfind_from_cases: "rfind_from c bs i f = f \<or> i \<le> rfind_from c bs i f"
proof (induction bs arbitrary: i f)
  case Nil
  show ?case by simp
next
  case (Cons y ys)
  show ?case
    using Cons.IH[of "i + 1" "if y = c then i else f"] by (auto split: if_splits)
qed

lemma rfind_from_ge: "c \<in> set bs \<Longrightarrow> i \<le> rfind_from c bs i f"
proof (induction bs arbitrary: i f)
  case Nil
  then show ?case by simp
next
  case (Cons y ys)
  show ?case
  proof (cases "y = c")
    case True
    then show ?thesis using rfind_from_cases[of c ys "i + 1" i] by auto
  next
    case False
    with Cons.prems have "c \<in> set ys" by simp
    from Cons.IH[OF this, of "i + 1" f] False show ?thesis by simp
  qed
qed

lemma rfind_take:
  assumes "rfind p c < int d"
  shows "rfind (take d p) c = rfind p c"
proof -
  have notin: "c \<notin> set (drop d p)"
  proof
    assume cin: "c \<in> set (drop d p)"
    then have "d < length p" by (cases "d < length p") auto
    then have len: "length (take d p) = d" by simp
    have "rfind p c = rfind_from c (take d p @ drop d p) 0 (-1)"
      by (simp add: rfind_def)
    also have "\<dots> = rfind_from c (drop d p) (int d) (rfind_from c (take d p) 0 (-1))"
      unfolding rfind_from_append using len by simp
    finally have "int d \<le> rfind p c" using rfind_from_ge[OF cin] by simp
    with assms show False by simp
  qed
  have "rfind p c = rfind_from c (take d p @ drop d p) 0 (-1)"
    by (simp add: rfind_def)
  also have "\<dots> = rfind_from c (take d p) 0 (-1)"
    unfolding rfind_from_append by (rule rfind_from_notin[OF notin])
  finally show ?thesis by (simp add: rfind_def)
qed

lemma rfind_ge: "- 1 \<le> rfind p c"
  using rfind_from_cases[of c p 0 "- 1"] by (auto simp: rfind_def)

lemma dirname_take:
  assumes "rfind p CHR ''/'' < int d"
  shows "dirname (take d p) = dirname p"
proof -
  have "nat (rfind p CHR ''/'' + 1) \<le> d"
    using assms rfind_ge[of p "CHR ''/''"] by simp
  then have h: "take (nat (rfind p CHR ''/'' + 1)) (take d p) = take (nat (rfind p CHR ''/'' + 1)) p"
    by (simp add: min_def)
  show ?thesis
    by (simp only: dirname_def Let_def rfind_take[OF assms] h)
qed

text \<open>Stripping the extension first does not change the directory part.\<close>

lemma dirname_splitext: "dirname (fst (splitext p)) = dirname p"
proof (cases "rfind p CHR ''.'' > rfind p CHR ''/''
              \<and> skip_dots p (nat (rfind p CHR ''/'' + 1)) (nat (rfind p CHR ''.''))")
  case True
  then have "rfind p CHR ''/'' < int (nat (rfind p CHR ''.''))"
    using rfind_ge[of p "CHR ''/''"] by simp
  from dirname_take[OF this] True show ?thesis
    by (simp add: splitext_def Let_def)
next
  case False
  then show ?thesis by (auto simp: splitext_def Let_def)
qed

section \<open>Loading\<close>

lemma load_recording_Inr:
  "load_recording e path sc mr buf r = (Inr f, tr) \<Longrightarrow> built_from e path sc mr buf r f"
  by (auto simp: load_recording_def built_from_def Let_def split: option.splits sum.splits)

lemma load_recordings_Inr:
  "load_recordings e path sc mr buf recs acc = (Inr fs, tr) \<Longrightarrow>
     \<exists>fs'. fs = acc @ fs' \<and> list_all2 (built_from e path sc mr buf) recs fs'"
proof (induction recs arbitrary: acc tr)
  case Nil
  then show ?case by simp
next
  case (Cons r recs)
  from Cons.prems obtain f t t' where
    l: "load_recording e path sc mr buf r = (Inr f, t)" and
    ls: "load_recordings e path sc mr buf recs (acc @ [f]) = (Inr fs, t')"
    by (auto split: prod.splits sum.splits)
  from Cons.IH[OF ls] obtain fs' where
    fs': "fs = (acc @ [f]) @ fs'" "list_all2 (built_from e path sc mr buf) recs fs'" by blast
  from load_recording_Inr[OF l] fs' show ?case by simp
qed

lemma load_recordings_Inl:
  "load_recordings e path sc mr buf recs acc = (Inl err, tr) \<Longrightarrow>
     \<exists>pre r post t. recs = pre @ r # post
        \<and> list_all (\<lambda>q. \<exists>f t'. load_recording e path sc mr buf q = (Inr f, t')) pre
        \<and> load_recording e path sc mr buf r = (Inl err, t)"
proof (induction recs arbitrary: acc tr)
  case Nil
  then show ?case by simp
next
  case (Cons r recs)
  show ?case
  proof (cases "load_recording e path sc mr buf r")
    case (Pair res t)
    show ?thesis
    proof (cases res)
      case (Inl err')
      with Pair Cons.prems have "err' = err" by simp
      with Inl Pair have "r # recs = [] @ r # recs \<and> list_all (\<lambda>q. \<exists>f t'. load_recording e path sc mr buf q = (Inr f, t')) []
        \<and> load_recording e path sc mr buf r = (Inl err, t)" by simp
      then show ?thesis by blast
    next
      case (Inr f)
      with Pair Cons.prems obtain t' where
        "load_recordings e path sc mr buf recs (acc @ [f]) = (Inl err, t')"
        by (auto split: prod.splits)
      from Cons.IH[OF this] obtain pre q post t2 where
        "recs = pre @ q # post"
        "list_all (\<lambda>q. \<exists>f t'. load_recording e path sc mr buf q = (Inr f, t')) pre"
        "load_recording e path sc mr buf q = (Inl err, t2)" by blast
      with Pair Inr have "r # recs = (r # pre) @ q # post
        \<and> list_all (\<lambda>q. \<exists>f t'. load_recording e path sc mr buf q = (Inr f, t')) (r # pre)
        \<and> load_recording e path sc mr buf q = (Inl err, t2)" by simp
      then show ?thesis by blast
    qed
  qed
qed

lemma load_recordings_first_failure:
  assumes "list_all (\<lambda>q. \<exists>f t'. load_recording e path sc mr buf q = (Inr f, t')) pre"
    and "load_recording e path sc mr buf r = (Inl err, t)"
  shows "fst (load_recordings e path sc mr buf (pre @ r # post) acc) = Inl err"
  using assms
proof (induction pre arbitrary: acc)
  case Nil
  then show ?case by simp
next
  case (Cons q pre)
  from Cons.prems(1) obtain f t' where q: "load_recording e path sc mr buf q = (Inr f, t')"
    by auto
  from Cons.prems(1) have
    "list_all (\<lambda>q. \<exists>f t'. load_recording e path sc mr buf q = (Inr f, t')) pre" by simp
  from Cons.IH[OF this Cons.prems(2), of "acc @ [f]"] q show ?case
    by (auto split: prod.splits)
qed

lemma validation_fails_load:
  "validation_fails e r err \<Longrightarrow> \<exists>t. load_recording e path sc mr buf r = (Inl err, t)"
  by (auto simp: validation_fails_def load_recording_def Let_def split: option.splits sum.splits)

lemma load_recording_events: "list_all is_load_event (snd (load_recording e path sc mr buf r))"
  by (simp add: load_recording_def Let_def split: option.splits sum.splits)

lemma load_recordings_events:
  "list_all is_load_event (snd (load_recordings e path sc mr buf recs acc))"
proof (induction recs arbitrary: acc)
  case Nil
  show ?case by simp
next
  case (Cons r recs)
  obtain res t where l: "load_recording e path sc mr buf r = (res, t)"
    by (cases "load_recording e path sc mr buf r")
  from load_recording_events[of e path sc mr buf r] l have t: "list_all is_load_event t"
    by simp
  show ?case
  proof (cases res)
    case (Inl err)
    with l t show ?thesis by simp
  next
    case (Inr f)
    obtain res' t' where ls: "load_recordings e path sc mr buf recs (acc @ [f]) = (res', t')"
      by (cases "load_recordings e path sc mr buf recs (acc @ [f])")
    from Cons.IH[of "acc @ [f]"] ls have "list_all is_load_event t'" by simp
    with l t Inr ls show ?thesis by simp
  qed
qed

section \<open>What the grouping pass prints\<close>

lemma scan_member_printed:
  "list_all is_print (printed s) \<Longrightarrow> list_all is_print (printed (scan_member x s memb))"
  by (simp add: scan_member_def set_metadata_def set_data_def new_recording_def)

lemma scan_members_printed:
  "list_all is_print (printed s) \<Longrightarrow> list_all is_print (printed (scan_members x s membs))"
  by (induction membs arbitrary: s) (simp_all add: scan_member_printed)

lemma group_members_printed: "list_all is_print (printed (group_members x membs))"
  using scan_members_printed[of scan_init x membs]
  by (simp add: group_members_def save_final_def scan_init_def)

section \<open>The reader\<close>

lemma open_Inr:
  assumes "SigMFArchiveReader_init x e path sc mr buf = (Inr fs, tr)"
    and "getmembers e = Inr membs"
  shows "list_all2 (built_from e path sc mr buf) (groups_of x ArchiveRecording_init membs) fs"
proof -
  from assms obtain t where
    "load_recordings e path sc mr buf (deref (group_members x membs)) [] = (Inr fs, t)"
    by (auto simp: SigMFArchiveReader_init_def parse_members_def Let_def
        split: prod.splits sum.splits)
  from load_recordings_Inr[OF this] show ?thesis
    by (simp add: deref_groups_of)
qed

lemma groups_of_init_metadata:
  "map metadata (groups_of x ArchiveRecording_init membs) = map Some (filter (is_meta x) membs)"
  by (simp add: groups_of_metadata ArchiveRecording_init_def)

lemma groups_of_init_length:
  "length (groups_of x ArchiveRecording_init membs) = length (filter (is_meta x) membs)"
  by (simp add: groups_of_length ArchiveRecording_init_def)

lemma groups_of_init_nth_metadata:
  assumes "i < length (filter (is_meta x) membs)"
  shows "metadata (groups_of x ArchiveRecording_init membs ! i) = Some (filter (is_meta x) membs ! i)"
proof -
  have "map metadata (groups_of x ArchiveRecording_init membs) ! i =
        map Some (filter (is_meta x) membs) ! i"
    by (simp only: groups_of_init_metadata)
  with assms show ?thesis by (simp add: groups_of_init_length)
qed

lemma open_Inr_metadata:
  assumes "SigMFArchiveReader_init x e path sc mr buf = (Inr fs, tr)"
    and "getmembers e = Inr membs"
  shows "list_all2 (\<lambda>md f. sf_name f = dirname (fst (splitext (name md)))
                           \<and> extract_read e md = Inr (sf_metadata f))
           (filter (is_meta x) membs) fs"
proof -
  let ?gs = "groups_of x ArchiveRecording_init membs"
  from open_Inr[OF assms] have
    len: "length ?gs = length fs" and
    nth: "\<And>i. i < length ?gs \<Longrightarrow> built_from e path sc mr buf (?gs ! i) (fs ! i)"
    by (simp_all add: list_all2_conv_all_nth)
  show ?thesis
    unfolding list_all2_conv_all_nth
  proof (intro conjI allI impI)
    show "length (filter (is_meta x) membs) = length fs"
      using len by (simp add: groups_of_init_length)
  next
    fix i assume i: "i < length (filter (is_meta x) membs)"
    then have "built_from e path sc mr buf (?gs ! i) (fs ! i)"
      using nth by (simp add: groups_of_init_length)
    with groups_of_init_nth_metadata[OF i]
    show "sf_name (fs ! i) = dirname (fst (splitext (name (filter (is_meta x) membs ! i))))"
      and "extract_read e (filter (is_meta x) membs ! i) = Inr (sf_metadata (fs ! i))"
      by (simp_all add: built_from_def)
  qed
qed

section \<open>Traces\<close>

lemma is_print_no_close: "list_all is_print tr \<Longrightarrow> TarClose \<notin> set tr"
  by (induction tr) auto

lemma is_load_event_no_close: "list_all is_load_event tr \<Longrightarrow> TarClose \<notin> set tr"
  by (induction tr) auto

lemma is_print_no_warning: "list_all is_print tr \<Longrightarrow> filter is_warning tr = []"
proof (induction tr)
  case Nil
  show ?case by simp
next
  case (Cons ev tr)
  then show ?case by (cases ev) simp_all
qed

lemma is_load_event_no_warning: "list_all is_load_event tr \<Longrightarrow> filter is_warning tr = []"
proof (induction tr)
  case Nil
  show ?case by simp
next
  case (Cons ev tr)
  then show ?case by (cases ev) simp_all
qed

lemma acquire_trace:
  "snd (acquire x e path buf) = [] \<or> snd (acquire x e path buf) = [TarOpen]"
  by (simp add: acquire_def split: option.splits)

lemma acquire_Inr_trace: "fst (acquire x e path buf) = Inr u \<Longrightarrow> snd (acquire x e path buf) = [TarOpen]"
  by (auto simp: acquire_def split: option.splits if_splits)

lemma parse_members_no_close:
  "TarClose \<notin> set (snd (parse_members x e path sc mr buf))"
proof (cases "getmembers e")
  case (Inl err)
  then show ?thesis by (simp add: parse_members_def)
next
  case (Inr membs)
  let ?recs = "deref (group_members x membs)"
  obtain res t where l: "load_recordings e path sc mr buf ?recs [] = (res, t)"
    by (cases "load_recordings e path sc mr buf ?recs []")
  from load_recordings_events[of e path sc mr buf ?recs "[]"] l
  have t: "TarClose \<notin> set t" by (simp add: is_load_event_no_close)
  have p: "TarClose \<notin> set (printed (group_members x membs))"
    by (rule is_print_no_close[OF group_members_printed])
  from Inr l t p show ?thesis
    by (cases res) (simp_all add: parse_members_def Let_def)
qed

lemma init_close_count:
  "count_list (snd (SigMFArchiveReader_init x e path sc mr buf)) TarClose =
     (case fst (acquire x e path buf) of Inl err \<Rightarrow> 0 | Inr u \<Rightarrow> 1)"
proof (cases "acquire x e path buf")
  case (Pair res t)
  obtain res' t' where pm: "parse_members x e path sc mr buf = (res', t')"
    by (cases "parse_members x e path sc mr buf")
  from parse_members_no_close[of x e path sc mr buf] pm have t': "count_list t' TarClose = 0"
    by simp
  from acquire_trace[of x e path buf] Pair have t: "count_list t TarClose = 0"
    by auto
  from Pair pm t t' show ?thesis
    by (cases res) (simp_all add: SigMFArchiveReader_init_def)
qed

lemma init_close_last:
  assumes "fst (acquire x e path buf) = Inr u"
  shows "last (snd (SigMFArchiveReader_init x e path sc mr buf)) = TarClose"
proof -
  obtain t where a: "acquire x e path buf = (Inr u, t)"
    using assms by (cases "acquire x e path buf") simp
  obtain res' t' where pm: "parse_members x e path sc mr buf = (res', t')"
    by (cases "parse_members x e path sc mr buf")
  from a pm show ?thesis by (simp add: SigMFArchiveReader_init_def)
qed

lemma init_first_failure:
  assumes "fst (acquire x e path buf) = Inr u"
    and "getmembers e = Inr membs"
    and "deref (group_members x membs) = pre @ r # post"
    and "list_all (\<lambda>q. \<exists>f t. load_recording e path sc mr buf q = (Inr f, t)) pre"
    and "load_recording e path sc mr buf r = (Inl err, t)"
  shows "fst (SigMFArchiveReader_init x e path sc mr buf) = Inl err"
proof -
  obtain t0 where a: "acquire x e path buf = (Inr u, t0)"
    using assms(1) by (cases "acquire x e path buf") simp
  from load_recordings_first_failure[OF assms(4) assms(5), of post "[]"]
  obtain t1 where "load_recordings e path sc mr buf (pre @ r # post) [] = (Inl err, t1)"
    by (cases "load_recordings e path sc mr buf (pre @ r # post) []") simp
  with a assms(2) assms(3) show ?thesis
    by (simp add: SigMFArchiveReader_init_def parse_members_def)
qed

lemma load_recordings_all_ok:
  "load_recordings e path sc mr buf recs acc = (Inr fs, tr) \<Longrightarrow>
     list_all (\<lambda>q. \<exists>f t. load_recording e path sc mr buf q = (Inr f, t)) recs"
proof (induction recs arbitrary: acc tr)
  case Nil
  show ?case by simp
next
  case (Cons r recs)
  from Cons.prems obtain f t t' where
    l: "load_recording e path sc mr buf r = (Inr f, t)" and
    ls: "load_recordings e path sc mr buf recs (acc @ [f]) = (Inr fs, t')"
    by (auto split: prod.splits sum.splits)
  from Cons.IH[OF ls] l show ?case by auto
qed

lemma init_any_failure:
  assumes "getmembers e = Inr membs"
    and "r \<in> set (deref (group_members x membs))"
    and "validation_fails e r err"
  shows "isl (fst (SigMFArchiveReader_init x e path sc mr buf))"
proof (rule ccontr)
  assume "\<not> isl (fst (SigMFArchiveReader_init x e path sc mr buf))"
  then obtain fs tr where "SigMFArchiveReader_init x e path sc mr buf = (Inr fs, tr)"
    by (cases "SigMFArchiveReader_init x e path sc mr buf"; cases "fst (SigMFArchiveReader_init x e path sc mr buf)") auto
  with assms(1) obtain t where
    "load_recordings e path sc mr buf (deref (group_members x membs)) [] = (Inr fs, t)"
    by (auto simp: SigMFArchiveReader_init_def parse_members_def Let_def
        split: prod.splits sum.splits)
  from load_recordings_all_ok[OF this] assms(2)
  obtain f t' where "load_recording e path sc mr buf r = (Inr f, t')"
    by (auto simp: list_all_iff)
  with validation_fails_load[OF assms(3), of path sc mr buf] show False by auto
qed

section \<open>Archives without dataset entries\<close>

lemma groups_of_data_none:
  "filter (is_data x) membs = [] \<Longrightarrow> data r0 = None \<Longrightarrow>
     list_all (\<lambda>r. data r = None) (groups_of x r0 membs)"
proof (induction membs arbitrary: r0)
  case Nil
  then show ?case by (simp add: groups_of_Nil)
next
  case (Cons m membs)
  from Cons.prems(1) have nd: "\<not> is_data x m" and rest: "filter (is_data x) membs = []"
    by (auto split: if_splits)
  show ?case
    using Cons.IH[OF rest, of "\<lparr>metadata = Some m, data = None\<rparr>"]
      Cons.IH[OF rest, of "r0\<lparr>metadata := Some m\<rparr>"] Cons.IH[OF rest, of r0] Cons.prems(2) nd
    by (simp add: groups_of_Cons)
qed

lemma groups_of_init_member:
  assumes "r \<in> set (groups_of x ArchiveRecording_init membs)"
  shows "\<exists>md. metadata r = Some md \<and> md \<in> set (filter (is_meta x) membs)"
proof -
  from assms have "metadata r \<in> set (map metadata (groups_of x ArchiveRecording_init membs))"
    by simp
  then have "metadata r \<in> set (map Some (filter (is_meta x) membs))"
    by (simp only: groups_of_init_metadata)
  then show ?thesis by auto
qed

lemma load_recording_metadata_only:
  assumes "metadata r = Some md" and "data r = None" and "metadata_loads e md"
  shows "\<exists>f. load_recording e path sc mr buf r = (Inr f, [ReadMember md])"
  using assms
  by (auto simp: load_recording_def metadata_loads_def Let_def split: sum.splits)

lemma init_no_dataset:
  assumes a: "fst (acquire x e path buf) = Inr ()"
    and g: "getmembers e = Inr membs"
    and nd: "filter (is_data x) membs = []"
    and ml: "list_all (metadata_loads e) (filter (is_meta x) membs)"
  shows "\<exists>fs tr. SigMFArchiveReader_init x e path sc mr buf = (Inr fs, tr)
           \<and> length fs = length (filter (is_meta x) membs)
           \<and> list_all (\<lambda>f. sf_data f = None) fs
           \<and> filter is_warning tr =
               [Warn (''No file with '' @ SIGMF_DATASET_EXT x @ '' extension found in archive!'')]"
proof -
  let ?s = "group_members x membs"
  let ?recs = "deref ?s"
  have recs: "?recs = groups_of x ArchiveRecording_init membs" by (rule deref_groups_of)
  have none: "list_all (\<lambda>r. data r = None) ?recs"
    unfolding recs by (rule groups_of_data_none[OF nd]) (simp add: ArchiveRecording_init_def)
  have loads: "\<exists>f t. load_recording e path sc mr buf r = (Inr f, t)" if "r \<in> set ?recs" for r
  proof -
    from that groups_of_init_member[of r x membs] obtain md where
      md: "metadata r = Some md" "md \<in> set (filter (is_meta x) membs)"
      unfolding recs by blast
    from md(2) ml have "metadata_loads e md" by (simp add: list_all_iff)
    moreover from that none have "data r = None" by (simp add: list_all_iff)
    ultimately show ?thesis
      using load_recording_metadata_only[OF md(1), of e path sc mr buf] by blast
  qed
  obtain res t where l: "load_recordings e path sc mr buf ?recs [] = (res, t)"
    by (cases "load_recordings e path sc mr buf ?recs []")
  have "\<exists>fs. res = Inr fs"
  proof (cases res)
    case (Inl err)
    with l load_recordings_Inl[of e path sc mr buf ?recs "[]" err t]
    obtain pre r post t' where "?recs = pre @ r # post"
      "load_recording e path sc mr buf r = (Inl err, t')" by blast
    with loads[of r] show ?thesis by auto
  next
    case (Inr fs)
    then show ?thesis by blast
  qed
  then obtain fs where res: "res = Inr fs" by blast
  from load_recordings_Inr[OF l[unfolded res]] have
    b: "list_all2 (built_from e path sc mr buf) ?recs fs" by simp
  then have len: "length fs = length (filter (is_meta x) membs)"
    by (simp add: list_all2_lengthD[symmetric] recs groups_of_init_length)
  have nodata: "list_all (\<lambda>f. sf_data f = None) fs"
    unfolding list_all_length
  proof (intro allI impI)
    fix i assume i: "i < length fs"
    with b have "built_from e path sc mr buf (?recs ! i) (fs ! i)"
      by (simp add: list_all2_conv_all_nth)
    moreover from i b none have "data (?recs ! i) = None"
      by (simp add: list_all_length list_all2_lengthD)
    ultimately show "sf_data (fs ! i) = None" by (simp add: built_from_def)
  qed
  from none have noany: "\<not> list_ex (\<lambda>r. data r \<noteq> None) ?recs"
    by (simp add: list_all_iff list_ex_iff)
  from load_recordings_events[of e path sc mr buf ?recs "[]"] l
  have tw: "filter is_warning t = []" by (simp add: is_load_event_no_warning)
  have pw: "filter is_warning (printed ?s) = []"
    by (rule is_print_no_warning[OF group_members_printed])
  obtain t0 where aq: "acquire x e path buf = (Inr (), t0)"
    using a by (cases "acquire x e path buf") simp
  from acquire_Inr_trace[OF a] aq have t0: "t0 = [TarOpen]" by simp
  have pm: "parse_members x e path sc mr buf =
        (Inr fs, GetMembers # printed ?s @ t @
           [Warn (''No file with '' @ SIGMF_DATASET_EXT x @ '' extension found in archive!'')])"
    using g l res noany by (simp add: parse_members_def)
  have "SigMFArchiveReader_init x e path sc mr buf =
        (Inr fs, t0 @ (GetMembers # printed ?s @ t @
           [Warn (''No file with '' @ SIGMF_DATASET_EXT x @ '' extension found in archive!'')])
           @ [TarClose])"
    using aq pm by (simp add: SigMFArchiveReader_init_def)
  moreover have "filter is_warning (t0 @ (GetMembers # printed ?s @ t @
           [Warn (''No file with '' @ SIGMF_DATASET_EXT x @ '' extension found in archive!'')])
           @ [TarClose]) =
        [Warn (''No file with '' @ SIGMF_DATASET_EXT x @ '' extension found in archive!'')]"
    using t0 tw pw by simp
  ultimately show ?thesis using len nodata by blast
qed

section \<open>The recording of a given metadata entry\<close>

lemma filter_nth_split:
  "k < length (filter P xs) \<Longrightarrow>
     \<exists>pre m rest. xs = pre @ m # rest \<and> P m \<and> length (filter P pre) = k"
proof (induction xs arbitrary: k)
  case Nil
  then show ?case by simp
next
  case (Cons y ys)
  show ?case
  proof (cases "P y \<and> k = 0")
    case True
    then have "y # ys = [] @ y # ys \<and> P y \<and> length (filter P []) = k" by simp
    then show ?thesis by blast
  next
    case False
    with Cons.prems have "(if P y then k - 1 else k) < length (filter P ys)"
      by (auto split: if_splits)
    from Cons.IH[OF this] obtain pre m rest where
      "ys = pre @ m # rest" "P m" "length (filter P pre) = (if P y then k - 1 else k)"
      by blast
    with False have "y # ys = (y # pre) @ m # rest \<and> P m \<and> length (filter P (y # pre)) = k"
      by (auto split: if_splits)
    then show ?thesis by blast
  qed
qed

lemma last_data_None_iff: "last_data x membs = None \<longleftrightarrow> filter (is_data x) membs = []"
  by (simp add: last_data_def split: list.splits)

lemma last_data_SomeD:
  assumes "last_data x membs = Some d"
  shows "\<exists>as bs. membs = as @ d # bs \<and> is_data x d"
proof -
  from assms obtain ds where "rev (filter (is_data x) membs) = d # ds"
    by (auto simp: last_data_def split: list.splits)
  then have "d \<in> set (rev (filter (is_data x) membs))" by simp
  then have "d \<in> set membs" "is_data x d" by simp_all
  then show ?thesis by (auto simp: in_set_conv_decomp)
qed

lemma last_data_snoc: "filter (is_data x) membs = ds @ [d] \<Longrightarrow> last_data x membs = Some d"
  by (simp add: last_data_def)

lemma takeWhile_no_meta_prefix:
  assumes "filter (is_meta x) pre = []" and "is_meta x m"
  shows "takeWhile (\<lambda>y. \<not> is_meta x y) (pre @ m # rest) = pre"
proof -
  from assms(1) have "\<And>y. y \<in> set pre \<Longrightarrow> \<not> is_meta x y"
    by (simp add: filter_empty_conv)
  then show ?thesis using assms(2) by (simp add: takeWhile_append2)
qed

lemma takeWhile_no_meta_segment:
  assumes "list_all (\<lambda>y. \<not> is_meta x y) mid" and "is_meta x m"
  shows "takeWhile (\<lambda>y. \<not> is_meta x y) (mid @ m # rest) = mid"
  using assms by (simp add: takeWhile_append2 list_all_iff)

lemma open_nth:
  assumes "SigMFArchiveReader_init x e path sc mr buf = (Inr fs, tr)"
    and "getmembers e = Inr (pre @ m # rest)"
    and "is_meta x m"
  shows "built_from e path sc mr buf
           \<lparr>metadata = Some m,
            data = (case last_data x (takeWhile (\<lambda>y. \<not> is_meta x y) rest) of
                      Some d \<Rightarrow> Some d
                    | None \<Rightarrow> if filter (is_meta x) pre = [] then last_data x pre else None)\<rparr>
           (fs ! length (filter (is_meta x) pre))"
proof -
  let ?gs = "groups_of x ArchiveRecording_init (pre @ m # rest)"
  let ?k = "length (filter (is_meta x) pre)"
  have "?k < length ?gs" using assms(3) by (simp add: groups_of_init_length)
  with open_Inr[OF assms(1) assms(2)] have "built_from e path sc mr buf (?gs ! ?k) (fs ! ?k)"
    by (simp add: list_all2_conv_all_nth)
  then show ?thesis by (simp only: groups_of_nth[OF assms(3)])
qed

section \<open>Dropping an overwritten dataset entry\<close>

lemma group_run_append:
  "group_run x st (as @ bs) = group_run x (group_run x st as) bs"
  by (induction as arbitrary: st) simp_all

lemma group_run_no_meta:
  "list_all (\<lambda>y. \<not> is_meta x y) seg \<Longrightarrow>
     group_run x st seg =
       (fst st, (snd st)\<lparr>data := (case last_data x seg of Some d \<Rightarrow> Some d
                                   | None \<Rightarrow> data (snd st))\<rparr>)"
proof (induction seg arbitrary: st)
  case Nil
  show ?case by (simp add: last_data_Nil)
next
  case (Cons y seg)
  then show ?case
    by (cases "last_data x seg") (simp_all add: group_step_def last_data_Cons)
qed

lemma group_run_drop_overwritten:
  assumes "is_data x d1" and "is_data x d2" and "list_all (\<lambda>y. \<not> is_meta x y) mid"
  shows "group_run x st (pre @ d1 # mid @ d2 # post) = group_run x st (pre @ mid @ d2 # post)"
proof -
  from assms have nm1: "list_all (\<lambda>y. \<not> is_meta x y) (d1 # mid @ [d2])"
    and nm2: "list_all (\<lambda>y. \<not> is_meta x y) (mid @ [d2])"
    by (auto simp: is_data_def is_meta_def)
  from assms(2) have l1: "last_data x (d1 # mid @ [d2]) = Some d2"
    and l2: "last_data x (mid @ [d2]) = Some d2"
    by (simp_all add: last_data_def)
  have "group_run x st' (d1 # mid @ [d2]) = group_run x st' (mid @ [d2])" for st'
    by (simp only: group_run_no_meta[OF nm1] group_run_no_meta[OF nm2] l1 l2)
  then have "group_run x (group_run x st pre) ((d1 # mid @ [d2]) @ post) =
             group_run x (group_run x st pre) ((mid @ [d2]) @ post)"
    by (simp only: group_run_append)
  then show ?thesis by (simp add: group_run_append)
qed

lemma scan_member_printed_eq:
  "printed (scan_member x s memb) = printed s @ printed (scan_member x scan_init memb)"
  by (simp add: scan_member_def set_metadata_def set_data_def new_recording_def scan_init_def)

lemma scan_members_printed_eq:
  "printed (scan_members x s membs) =
     printed s @ concat (map (\<lambda>memb. printed (scan_member x scan_init memb)) membs)"
proof (induction membs arbitrary: s)
  case Nil
  show ?case by simp
next
  case (Cons a membs)
  have "printed (scan_members x (scan_member x s a) membs) =
        printed (scan_member x s a) @
        concat (map (\<lambda>memb. printed (scan_member x scan_init memb)) membs)"
    by (rule Cons.IH)
  also have "printed (scan_member x s a) = printed s @ printed (scan_member x scan_init a)"
    by (rule scan_member_printed_eq)
  finally show ?case by simp
qed

lemma is_data_prints_nothing: "is_data x d \<Longrightarrow> printed (scan_member x scan_init d) = []"
  by (simp add: is_data_def scan_member_def set_data_def scan_init_def)

lemma group_members_printed_eq:
  "printed (group_members x membs) =
     concat (map (\<lambda>memb. printed (scan_member x scan_init memb)) membs)"
  by (simp add: group_members_def save_final_def scan_members_printed_eq scan_init_def)

lemma load_recording_getmembers:
  "load_recording (e\<lparr>getmembers := g\<rparr>) path sc mr buf r = load_recording e path sc mr buf r"
  by (auto simp: load_recording_def Let_def split: option.splits sum.splits)

lemma load_recordings_getmembers:
  "load_recordings (e\<lparr>getmembers := g\<rparr>) path sc mr buf recs acc =
     load_recordings e path sc mr buf recs acc"
  by (induction recs arbitrary: acc)
    (auto simp: load_recording_getmembers split: prod.splits sum.splits)

lemma acquire_getmembers:
  "acquire x (e\<lparr>getmembers := g\<rparr>) path buf = acquire x e path buf"
  by (auto simp: acquire_def split: option.splits)

lemma init_same_grouping:
  assumes "deref (group_members x membs1) = deref (group_members x membs2)"
    and "printed (group_members x membs1) = printed (group_members x membs2)"
  shows "SigMFArchiveReader_init x (e\<lparr>getmembers := Inr membs1\<rparr>) path sc mr buf =
         SigMFArchiveReader_init x (e\<lparr>getmembers := Inr membs2\<rparr>) path sc mr buf"
proof -
  have aq: "acquire x (e\<lparr>getmembers := Inr membs1\<rparr>) path buf =
            acquire x (e\<lparr>getmembers := Inr membs2\<rparr>) path buf"
    by (simp only: acquire_getmembers)
  have g1: "getmembers (e\<lparr>getmembers := Inr membs1\<rparr>) = Inr membs1"
    and g2: "getmembers (e\<lparr>getmembers := Inr membs2\<rparr>) = Inr membs2"
    by simp_all
  have pm: "parse_members x (e\<lparr>getmembers := Inr membs1\<rparr>) path sc mr buf =
            parse_members x (e\<lparr>getmembers := Inr membs2\<rparr>) path sc mr buf"
    by (simp only: parse_members_def Let_def g1 g2 sum.case assms load_recordings_getmembers)
  show ?thesis by (simp only: SigMFArchiveReader_init_def aq pm)
qed

section \<open>Runs on example inputs\<close>

lemmas run_defs =
  SigMFArchiveReader_init_def acquire_def parse_members_def group_members_def scan_init_def
  scan_member_def set_metadata_def set_data_def new_recording_def save_final_def deref_def
  load_recording_def endswith_def isdir_def isfile_def exts_ex_def member_ex_def env_ex_def
  dirname_def splitext_def rfind_def rstrip_def skip_dots.simps Let_def ArchiveRecording_init_def
  is_meta_def is_data_def

lemma run_flat_names:
  "SigMFArchiveReader_init exts_ex
     (env_ex [member_ex ''rec1.meta'' 512 10, member_ex ''rec1.data'' 1024 100,
              member_ex ''rec2.meta'' 1536 10, member_ex ''rec2.data'' 2048 50])
     (Some ''a.sigmf'') False True None =
   (Inr [\<lparr>sf_name = '''', sf_metadata = ''rec1.meta'',
          sf_data = Some \<lparr>df_path = Some ''a.sigmf'', df_buffer = None, df_skip_checksum = False,
                          df_offset = 1024, df_size_bytes = 100, df_map_readonly = True\<rparr>\<rparr>,
         \<lparr>sf_name = '''', sf_metadata = ''rec2.meta'',
          sf_data = Some \<lparr>df_path = Some ''a.sigmf'', df_buffer = None, df_skip_checksum = False,
                          df_offset = 2048, df_size_bytes = 50, df_map_readonly = True\<rparr>\<rparr>],
    [TarOpen, GetMembers,
     ReadMember (member_ex ''rec1.meta'' 512 10),
     SetDataFile \<lparr>df_path = Some ''a.sigmf'', df_buffer = None, df_skip_checksum = False,
                  df_offset = 1024, df_size_bytes = 100, df_map_readonly = True\<rparr>,
     ReadMember (member_ex ''rec2.meta'' 1536 10),
     SetDataFile \<lparr>df_path = Some ''a.sigmf'', df_buffer = None, df_skip_checksum = False,
                  df_offset = 2048, df_size_bytes = 50, df_map_readonly = True\<rparr>,
     TarClose])"
  by (simp add: run_defs)

lemma run_nested_names:
  "SigMFArchiveReader_init exts_ex
     (env_ex [member_ex ''rec1/rec1.meta'' 512 10, member_ex ''rec1/rec1.data'' 1024 100,
              member_ex ''rec2/rec2.meta'' 1536 10, member_ex ''rec2/rec2.data'' 2048 50])
     (Some ''a.sigmf'') False True None =
   (Inr [\<lparr>sf_name = ''rec1'', sf_metadata = ''rec1/rec1.meta'',
          sf_data = Some \<lparr>df_path = Some ''a.sigmf'', df_buffer = None, df_skip_checksum = False,
                          df_offset = 1024, df_size_bytes = 100, df_map_readonly = True\<rparr>\<rparr>,
         \<lparr>sf_name = ''rec2'', sf_metadata = ''rec2/rec2.meta'',
          sf_data = Some \<lparr>df_path = Some ''a.sigmf'', df_buffer = None, df_skip_checksum = False,
                          df_offset = 2048, df_size_bytes = 50, df_map_readonly = True\<rparr>\<rparr>],
    [TarOpen, GetMembers,
     ReadMember (member_ex ''rec1/rec1.meta'' 512 10),
     SetDataFile \<lparr>df_path = Some ''a.sigmf'', df_buffer = None, df_skip_checksum = False,
                  df_offset = 1024, df_size_bytes = 100, df_map_readonly = True\<rparr>,
     ReadMember (member_ex ''rec2/rec2.meta'' 1536 10),
     SetDataFile \<lparr>df_path = Some ''a.sigmf'', df_buffer = None, df_skip_checksum = False,
                  df_offset = 2048, df_size_bytes = 50, df_map_readonly = True\<rparr>,
     TarClose])"
  by (simp add: run_defs)

lemma run_mixed:
  "SigMFArchiveReader_init exts_ex (env_ex archive_mixed) (Some ''a.sigmf'') False True None =
   (Inr [\<lparr>sf_name = ''rec1'', sf_metadata = ''rec1/rec1.meta'',
          sf_data = Some \<lparr>df_path = Some ''a.sigmf'', df_buffer = None, df_skip_checksum = False,
                          df_offset = 1024, df_size_bytes = 100, df_map_readonly = True\<rparr>\<rparr>,
         \<lparr>sf_name = ''rec2'', sf_metadata = ''rec2/rec2.meta'', sf_data = None\<rparr>,
         \<lparr>sf_name = ''rec3'', sf_metadata = ''rec3/rec3.meta'',
          sf_data = Some \<lparr>df_path = Some ''a.sigmf'', df_buffer = None, df_skip_checksum = False,
                          df_offset = 2560, df_size_bytes = 50, df_map_readonly = True\<rparr>\<rparr>],
    [TarOpen, GetMembers,
     ReadMember (member_ex ''rec1/rec1.meta'' 512 10),
     SetDataFile \<lparr>df_path = Some ''a.sigmf'', df_buffer = None, df_skip_checksum = False,
                  df_offset = 1024, df_size_bytes = 100, df_map_readonly = True\<rparr>,
     ReadMember (member_ex ''rec2/rec2.meta'' 1536 10),
     ReadMember (member_ex ''rec3/rec3.meta'' 2048 10),
     SetDataFile \<lparr>df_path = Some ''a.sigmf'', df_buffer = None, df_skip_checksum = False,
                  df_offset = 2560, df_size_bytes = 50, df_map_readonly = True\<rparr>,
     TarClose])"
  by (simp add: run_defs archive_mixed_def)

lemma run_leading_data:
  "SigMFArchiveReader_init exts_ex (env_ex archive_leading_data) (Some ''a.sigmf'') False True None =
   (Inr [\<lparr>sf_name = ''rec1'', sf_metadata = ''rec1/rec1.meta'',
          sf_data = Some \<lparr>df_path = Some ''a.sigmf'', df_buffer = None, df_skip_checksum = False,
                          df_offset = 512, df_size_bytes = 100, df_map_readonly = True\<rparr>\<rparr>,
         \<lparr>sf_name = ''rec2'', sf_metadata = ''rec2/rec2.meta'', sf_data = None\<rparr>],
    [TarOpen, GetMembers,
     ReadMember (member_ex ''rec1/rec1.meta'' 1024 10),
     SetDataFile \<lparr>df_path = Some ''a.sigmf'', df_buffer = None, df_skip_checksum = False,
                  df_offset = 512, df_size_bytes = 100, df_map_readonly = True\<rparr>,
     ReadMember (member_ex ''rec2/rec2.meta'' 1536 10),
     TarClose])"
  by (simp add: run_defs archive_leading_data_def)

lemma run_two_data:
  "SigMFArchiveReader_init exts_ex (env_ex archive_two_data) (Some ''a.sigmf'') False True None =
   (Inr [\<lparr>sf_name = ''rec1'', sf_metadata = ''rec1/rec1.meta'',
          sf_data = Some \<lparr>df_path = Some ''a.sigmf'', df_buffer = None, df_skip_checksum = False,
                          df_offset = 1536, df_size_bytes = 50, df_map_readonly = True\<rparr>\<rparr>],
    [TarOpen, GetMembers,
     ReadMember (member_ex ''rec1/rec1.meta'' 512 10),
     SetDataFile \<lparr>df_path = Some ''a.sigmf'', df_buffer = None, df_skip_checksum = False,
                  df_offset = 1536, df_size_bytes = 50, df_map_readonly = True\<rparr>,
     TarClose])"
  by (simp add: run_defs archive_two_data_def)

lemma group_leading_data:
  "deref (group_members exts_ex archive_leading_data) =
     [\<lparr>metadata = Some (member_ex ''rec1/rec1.meta'' 1024 10),
       data = Some (member_ex ''x.data'' 512 100)\<rparr>,
      \<lparr>metadata = Some (member_ex ''rec2/rec2.meta'' 1536 10), data = None\<rparr>]"
  by (simp add: run_defs archive_leading_data_def)

lemma group_mixed:
  "deref (group_members exts_ex archive_mixed) =
     [\<lparr>metadata = Some (member_ex ''rec1/rec1.meta'' 512 10),
       data = Some (member_ex ''rec1/rec1.data'' 1024 100)\<rparr>,
      \<lparr>metadata = Some (member_ex ''rec2/rec2.meta'' 1536 10), data = None\<rparr>,
      \<lparr>metadata = Some (member_ex ''rec3/rec3.meta'' 2048 10),
       data = Some (member_ex ''rec3/rec3.data'' 2560 50)\<rparr>]"
  by (simp add: run_defs archive_mixed_def)

section \<open>Claims\<close>

text \<open>
  C1. Whenever the reader returns, it returns exactly one \<open>SigMFFile\<close> per
  metadata entry of the container (a regular member whose name ends in the
  metadata suffix), and the files appear in the order of these entries: the
  i-th file carries the name derived from, and the bytes read from, the i-th
  metadata entry. This holds for every sequence of entries, so in particular
  for those that satisfy the construction invariant.
\<close>

theorem C1_one_recording_per_metadata_entry:
  assumes "getmembers e = Inr membs"
    and "SigMFArchiveReader_init x e path skip_checksum map_readonly archive_buffer
           = (Inr sigmffiles, tr)"
  shows "length sigmffiles = length (filter (is_meta x) membs)
       \<and> list_all2 (\<lambda>md f. sf_name f = dirname (fst (splitext (name md)))
                            \<and> extract_read e md = Inr (sf_metadata f))
           (filter (is_meta x) membs) sigmffiles"
  using open_Inr_metadata[OF assms(2) assms(1)]
  by (simp add: list_all2_lengthD)

theorem C1_witness:
  "getmembers (env_ex [member_ex ''rec1/rec1.meta'' 512 10, member_ex ''rec1/rec1.data'' 1024 100,
                       member_ex ''rec2/rec2.meta'' 1536 10, member_ex ''rec2/rec2.data'' 2048 50])
     = Inr [member_ex ''rec1/rec1.meta'' 512 10, member_ex ''rec1/rec1.data'' 1024 100,
            member_ex ''rec2/rec2.meta'' 1536 10, member_ex ''rec2/rec2.data'' 2048 50]
   \<and> length (filter (is_meta exts_ex)
        [member_ex ''rec1/rec1.meta'' 512 10, member_ex ''rec1/rec1.data'' 1024 100,
         member_ex ''rec2/rec2.meta'' 1536 10, member_ex ''rec2/rec2.data'' 2048 50]) = 2
   \<and> (case fst (SigMFArchiveReader_init exts_ex
          (env_ex [member_ex ''rec1/rec1.meta'' 512 10, member_ex ''rec1/rec1.data'' 1024 100,
                   member_ex ''rec2/rec2.meta'' 1536 10, member_ex ''rec2/rec2.data'' 2048 50])
          (Some ''a.sigmf'') False True None) of
         Inl err \<Rightarrow> False
       | Inr fs \<Rightarrow> length fs = 2 \<and> map sf_metadata fs = [''rec1/rec1.meta'', ''rec2/rec2.meta''])"
proof -
  let ?membs = "[member_ex ''rec1/rec1.meta'' 512 10, member_ex ''rec1/rec1.data'' 1024 100,
                 member_ex ''rec2/rec2.meta'' 1536 10, member_ex ''rec2/rec2.data'' 2048 50]"
  have g: "getmembers (env_ex ?membs) = Inr ?membs" by (simp add: env_ex_def)
  have n: "length (filter (is_meta exts_ex) ?membs) = 2" by (simp add: run_defs)
  from C1_one_recording_per_metadata_entry[OF g run_nested_names] n
  have "length [\<lparr>sf_name = ''rec1'', sf_metadata = ''rec1/rec1.meta'',
          sf_data = Some \<lparr>df_path = Some ''a.sigmf'', df_buffer = None, df_skip_checksum = False,
                          df_offset = 1024, df_size_bytes = 100, df_map_readonly = True\<rparr>\<rparr>,
         \<lparr>sf_name = ''rec2'', sf_metadata = ''rec2/rec2.meta'',
          sf_data = Some \<lparr>df_path = Some ''a.sigmf'', df_buffer = None, df_skip_checksum = False,
                          df_offset = 2048, df_size_bytes = 50, df_map_readonly = True\<rparr>\<rparr>] = 2"
    by (simp only:)
  with g n show ?thesis by (simp add: run_nested_names)
qed

text \<open>
  C2, as stated, fails: for the container with entries \<open>rec1.meta\<close>,
  \<open>rec1.data\<close>, \<open>rec2.meta\<close>, \<open>rec2.data\<close> both recordings get the empty name,
  not \<open>rec1\<close> and \<open>rec2\<close>.
\<close>

theorem C2_counterexample:
  "map_sum id (map sf_name)
     (fst (SigMFArchiveReader_init exts_ex
        (env_ex [member_ex ''rec1.meta'' 512 10, member_ex ''rec1.data'' 1024 100,
                 member_ex ''rec2.meta'' 1536 10, member_ex ''rec2.data'' 2048 50])
        (Some ''a.sigmf'') False True None))
   = Inr ['''', '''']
   \<and> ['''', ''''] \<noteq> [''rec1'', ''rec2'']"
  by (simp add: run_flat_names)

text \<open>
  C2, amended. The name of each recording is the directory part of its
  metadata entry's path: \<open>os.path.dirname\<close> applied to the path without its
  extension, which is \<open>os.path.dirname\<close> of the path itself. The file-name
  component is dropped, the leading directory components are kept.
\<close>

theorem C2_name_is_directory_part:
  assumes "getmembers e = Inr membs"
    and "SigMFArchiveReader_init x e path skip_checksum map_readonly archive_buffer
           = (Inr sigmffiles, tr)"
  shows "map sf_name sigmffiles = map (\<lambda>md. dirname (fst (splitext (name md)))) (filter (is_meta x) membs)
       \<and> map sf_name sigmffiles = map (\<lambda>md. dirname (name md)) (filter (is_meta x) membs)"
proof -
  from open_Inr_metadata[OF assms(2) assms(1)]
  have "list_all2 (\<lambda>md f. sf_name f = dirname (fst (splitext (name md))))
          (filter (is_meta x) membs) sigmffiles"
    by (rule list_all2_mono) simp
  then have "map sf_name sigmffiles =
             map (\<lambda>md. dirname (fst (splitext (name md)))) (filter (is_meta x) membs)"
    by (induction rule: list_all2_induct) simp_all
  then show ?thesis by (simp add: dirname_splitext)
qed

theorem C2_witness:
  "getmembers (env_ex [member_ex ''rec1/rec1.meta'' 512 10, member_ex ''rec1/rec1.data'' 1024 100,
                       member_ex ''rec2/rec2.meta'' 1536 10, member_ex ''rec2/rec2.data'' 2048 50])
     = Inr [member_ex ''rec1/rec1.meta'' 512 10, member_ex ''rec1/rec1.data'' 1024 100,
            member_ex ''rec2/rec2.meta'' 1536 10, member_ex ''rec2/rec2.data'' 2048 50]
   \<and> map_sum id (map sf_name)
        (fst (SigMFArchiveReader_init exts_ex
          (env_ex [member_ex ''rec1/rec1.meta'' 512 10, member_ex ''rec1/rec1.data'' 1024 100,
                   member_ex ''rec2/rec2.meta'' 1536 10, member_ex ''rec2/rec2.data'' 2048 50])
          (Some ''a.sigmf'') False True None))
      = Inr [''rec1'', ''rec2'']
   \<and> map (\<lambda>md. dirname (name md))
        (filter (is_meta exts_ex)
          [member_ex ''rec1/rec1.meta'' 512 10, member_ex ''rec1/rec1.data'' 1024 100,
           member_ex ''rec2/rec2.meta'' 1536 10, member_ex ''rec2/rec2.data'' 2048 50])
      = [''rec1'', ''rec2'']"
proof -
  let ?membs = "[member_ex ''rec1/rec1.meta'' 512 10, member_ex ''rec1/rec1.data'' 1024 100,
                 member_ex ''rec2/rec2.meta'' 1536 10, member_ex ''rec2/rec2.data'' 2048 50]"
  have g: "getmembers (env_ex ?membs) = Inr ?membs" by (simp add: env_ex_def)
  note e = conjunct2[OF C2_name_is_directory_part[OF g run_nested_names]]
  have "map sf_name
         [\<lparr>sf_name = ''rec1'', sf_metadata = ''rec1/rec1.meta'',
           sf_data = Some \<lparr>df_path = Some ''a.sigmf'', df_buffer = None, df_skip_checksum = False,
                           df_offset = 1024, df_size_bytes = 100, df_map_readonly = True\<rparr>\<rparr>,
          \<lparr>sf_name = ''rec2'', sf_metadata = ''rec2/rec2.meta'',
           sf_data = Some \<lparr>df_path = Some ''a.sigmf'', df_buffer = None, df_skip_checksum = False,
                           df_offset = 2048, df_size_bytes = 50, df_map_readonly = True\<rparr>\<rparr>]
        = [''rec1'', ''rec2'']" by simp
  from trans[OF e[symmetric] this]
  have "map (\<lambda>md. dirname (name md)) (filter (is_meta exts_ex) ?membs) = [''rec1'', ''rec2'']" .
  with g show ?thesis by (simp add: run_nested_names)
qed

text \<open>
  C7. With neither a path nor a buffer the constructor raises \<open>ValueError\<close>
  and the trace is empty: the container is not opened, no member is listed or
  read, and nothing is closed.
\<close>

theorem C7_neither_path_nor_buffer:
  "SigMFArchiveReader_init x e None skip_checksum map_readonly None =
     (Inl (ValueError (''In sigmf.archivereader.__init__(), either '' @
                       ''`path` or `archive_buffer` must be not None'')), [])"
  by (simp add: SigMFArchiveReader_init_def acquire_def)

text \<open>
  C8. A path that does not end in the archive suffix makes the constructor
  raise \<open>SigMFFileError\<close> with an empty trace, so before the container is
  opened and before any member is read. When no path is given, the archive
  suffix plays no part: the outcome of a buffer-based open is the same for
  every value of the suffix.
\<close>

theorem C8_extension_check:
  "(\<not> endswith p (SIGMF_ARCHIVE_EXT x) \<longrightarrow>
      SigMFArchiveReader_init x e (Some p) skip_checksum map_readonly archive_buffer =
        (Inl (SigMFFileError (''archive extension != '' @ SIGMF_ARCHIVE_EXT x)), []))
   \<and> SigMFArchiveReader_init (x\<lparr>SIGMF_ARCHIVE_EXT := a\<rparr>) e None skip_checksum map_readonly
        archive_buffer =
      SigMFArchiveReader_init x e None skip_checksum map_readonly archive_buffer"
proof -
  have step: "\<And>s memb. scan_member (x\<lparr>SIGMF_ARCHIVE_EXT := a\<rparr>) s memb = scan_member x s memb"
    by (simp add: scan_member_def)
  have "\<And>s membs. scan_members (x\<lparr>SIGMF_ARCHIVE_EXT := a\<rparr>) s membs = scan_members x s membs"
  proof -
    fix s membs
    show "scan_members (x\<lparr>SIGMF_ARCHIVE_EXT := a\<rparr>) s membs = scan_members x s membs"
      by (induction membs arbitrary: s) (simp_all add: step)
  qed
  then have gm: "\<And>membs. group_members (x\<lparr>SIGMF_ARCHIVE_EXT := a\<rparr>) membs = group_members x membs"
    by (simp add: group_members_def)
  have d: "SIGMF_DATASET_EXT (x\<lparr>SIGMF_ARCHIVE_EXT := a\<rparr>) = SIGMF_DATASET_EXT x"
    by simp
  have pm: "parse_members (x\<lparr>SIGMF_ARCHIVE_EXT := a\<rparr>) e None skip_checksum map_readonly
               archive_buffer =
             parse_members x e None skip_checksum map_readonly archive_buffer"
    by (simp only: parse_members_def gm d cong: if_cong)
  have aq: "acquire (x\<lparr>SIGMF_ARCHIVE_EXT := a\<rparr>) e None archive_buffer =
            acquire x e None archive_buffer"
    by (simp add: acquire_def)
  have buffer: "SigMFArchiveReader_init (x\<lparr>SIGMF_ARCHIVE_EXT := a\<rparr>) e None skip_checksum
                  map_readonly archive_buffer =
                SigMFArchiveReader_init x e None skip_checksum map_readonly archive_buffer"
    by (simp only: SigMFArchiveReader_init_def pm aq)
  have path: "\<not> endswith p (SIGMF_ARCHIVE_EXT x) \<longrightarrow>
      SigMFArchiveReader_init x e (Some p) skip_checksum map_readonly archive_buffer =
        (Inl (SigMFFileError (''archive extension != '' @ SIGMF_ARCHIVE_EXT x)), [])"
    by (simp add: SigMFArchiveReader_init_def acquire_def)
  from path buffer show ?thesis by (rule conjI)
qed

theorem C8_witness:
  "\<not> endswith ''rec.tar'' (SIGMF_ARCHIVE_EXT exts_ex)
   \<and> SigMFArchiveReader_init exts_ex (env_ex [member_ex ''rec1/rec1.meta'' 512 10])
        (Some ''rec.tar'') False True (Some 0) =
      (Inl (SigMFFileError ''archive extension != .sigmf''), [])
   \<and> SigMFArchiveReader_init (exts_ex\<lparr>SIGMF_ARCHIVE_EXT := ''.zip''\<rparr>)
        (env_ex [member_ex ''rec1/rec1.meta'' 512 10]) None False True (Some 0) =
      SigMFArchiveReader_init exts_ex
        (env_ex [member_ex ''rec1/rec1.meta'' 512 10]) None False True (Some 0)"
proof -
  have h: "\<not> endswith ''rec.tar'' (SIGMF_ARCHIVE_EXT exts_ex)"
    by (simp add: endswith_def exts_ex_def)
  from C8_extension_check[where p = "''rec.tar''" and x = exts_ex
      and e = "env_ex [member_ex ''rec1/rec1.meta'' 512 10]" and skip_checksum = False
      and map_readonly = True and archive_buffer = "Some 0" and a = "''.zip''"] h
  have "SigMFArchiveReader_init exts_ex (env_ex [member_ex ''rec1/rec1.meta'' 512 10])
          (Some ''rec.tar'') False True (Some 0) =
        (Inl (SigMFFileError (''archive extension != '' @ SIGMF_ARCHIVE_EXT exts_ex)), [])"
    and b: "SigMFArchiveReader_init (exts_ex\<lparr>SIGMF_ARCHIVE_EXT := ''.zip''\<rparr>)
          (env_ex [member_ex ''rec1/rec1.meta'' 512 10]) None False True (Some 0) =
        SigMFArchiveReader_init exts_ex
          (env_ex [member_ex ''rec1/rec1.meta'' 512 10]) None False True (Some 0)"
    by blast+
  then have "SigMFArchiveReader_init exts_ex (env_ex [member_ex ''rec1/rec1.meta'' 512 10])
          (Some ''rec.tar'') False True (Some 0) =
        (Inl (SigMFFileError ''archive extension != .sigmf''), [])"
    by (simp add: exts_ex_def)
  with h b show ?thesis by blast
qed

text \<open>
  C5. Once an address is on the list \<open>recordings\<close>, no later entry changes
  the list up to that position or the object stored at that address: for
  every split of the entries into \<open>pre\<close> and \<open>post\<close>, the list after \<open>pre\<close> is
  an initial segment of the list after \<open>pre @ post\<close>, every object it refers
  to is the same in both stores, and so the recordings completed after
  \<open>pre\<close> are, as values, an initial segment of the final grouping. The
  entries of \<open>post\<close> are arbitrary; a dataset entry arriving before any
  metadata entry or after another dataset entry is included.
\<close>

theorem C5_flushed_groups_unchanged:
  "prefix (recordings (scan_members x scan_init pre))
          (recordings (scan_members x scan_init (pre @ post)))
   \<and> list_all (\<lambda>a. heap (scan_members x scan_init (pre @ post)) ! a =
                    heap (scan_members x scan_init pre) ! a)
        (recordings (scan_members x scan_init pre))
   \<and> prefix (deref (scan_members x scan_init pre)) (deref (group_members x (pre @ post)))"
proof -
  let ?s = "scan_members x scan_init pre"
  let ?s' = "scan_members x scan_init (pre @ post)"
  have wf: "wf_state ?s" using scan_members_view[OF wf_scan_init] by blast
  have app: "?s' = scan_members x ?s post" by (simp add: scan_members_append)
  note keep = scan_members_keep[OF wf, of x post]
  from keep have p: "prefix (recordings ?s) (recordings ?s')"
    and h: "list_all (\<lambda>a. heap ?s' ! a = heap ?s ! a) (recordings ?s)"
    unfolding app by blast+
  from p obtain zs where zs: "recordings ?s' = recordings ?s @ zs"
    by (auto simp: prefix_def)
  have "deref ?s' = deref ?s @ map (\<lambda>a. heap ?s' ! a) zs"
    using h by (simp add: deref_def zs list_all_iff)
  then have d: "prefix (deref ?s) (deref ?s')" by simp
  have "prefix (deref ?s') (deref (save_final ?s'))"
    by (simp add: deref_def save_final_def)
  with d have "prefix (deref ?s) (deref (group_members x (pre @ post)))"
    unfolding group_members_def by (rule prefix_order.trans)
  with p h show ?thesis by blast
qed

text \<open>
  C6. The trace of the constructor holds exactly one \<open>TarClose\<close> when the
  container was opened and none when it was not, whatever happens in
  between. When the container is open and the metadata of a recording fails
  validation with \<open>err\<close>, all recordings before it having loaded, the
  constructor ends with \<open>err\<close>, so with no list of files, and the last
  event of its trace is the \<open>TarClose\<close>; and a recording whose metadata
  fails validation anywhere in the grouping rules out a successful outcome.
\<close>

theorem C6_validation_failure_aborts_and_closes:
  "count_list (snd (SigMFArchiveReader_init x e path skip_checksum map_readonly archive_buffer))
       TarClose =
     (case fst (acquire x e path archive_buffer) of Inl err' \<Rightarrow> 0 | Inr u \<Rightarrow> 1)
   \<and> (fst (acquire x e path archive_buffer) = Inr () \<longrightarrow>
        getmembers e = Inr membs \<longrightarrow>
        deref (group_members x membs) = pre @ r # post \<longrightarrow>
        list_all (\<lambda>q. \<exists>f t. load_recording e path skip_checksum map_readonly archive_buffer q
                          = (Inr f, t)) pre \<longrightarrow>
        validation_fails e r err \<longrightarrow>
        fst (SigMFArchiveReader_init x e path skip_checksum map_readonly archive_buffer) = Inl err
        \<and> last (snd (SigMFArchiveReader_init x e path skip_checksum map_readonly archive_buffer))
            = TarClose)
   \<and> (getmembers e = Inr membs \<longrightarrow>
        r \<in> set (deref (group_members x membs)) \<longrightarrow>
        validation_fails e r err \<longrightarrow>
        isl (fst (SigMFArchiveReader_init x e path skip_checksum map_readonly archive_buffer)))"
proof (intro conjI impI)
  show "count_list (snd (SigMFArchiveReader_init x e path skip_checksum map_readonly archive_buffer))
          TarClose =
        (case fst (acquire x e path archive_buffer) of Inl err' \<Rightarrow> 0 | Inr u \<Rightarrow> 1)"
    by (rule init_close_count)
next
  assume a: "fst (acquire x e path archive_buffer) = Inr ()"
    and g: "getmembers e = Inr membs"
    and d: "deref (group_members x membs) = pre @ r # post"
    and ok: "list_all (\<lambda>q. \<exists>f t. load_recording e path skip_checksum map_readonly archive_buffer q
                          = (Inr f, t)) pre"
    and v: "validation_fails e r err"
  from validation_fails_load[OF v, of path skip_checksum map_readonly archive_buffer]
  obtain t where "load_recording e path skip_checksum map_readonly archive_buffer r = (Inl err, t)"
    by blast
  from init_first_failure[OF a g d ok this]
  show "fst (SigMFArchiveReader_init x e path skip_checksum map_readonly archive_buffer) = Inl err" .
  from init_close_last[OF a]
  show "last (snd (SigMFArchiveReader_init x e path skip_checksum map_readonly archive_buffer))
          = TarClose" .
next
  assume "getmembers e = Inr membs" "r \<in> set (deref (group_members x membs))"
    "validation_fails e r err"
  then show "isl (fst (SigMFArchiveReader_init x e path skip_checksum map_readonly archive_buffer))"
    by (rule init_any_failure)
qed

theorem C6_witness:
  "fst (acquire exts_ex (env_invalid archive_ex) (Some ''a.sigmf'') None) = Inr ()
   \<and> getmembers (env_invalid archive_ex) = Inr archive_ex
   \<and> deref (group_members exts_ex archive_ex) =
       [\<lparr>metadata = Some (member_ex ''rec1/rec1.meta'' 512 10),
         data = Some (member_ex ''rec1/rec1.data'' 1024 100)\<rparr>] @
       \<lparr>metadata = Some (member_ex ''rec2/rec2.meta'' 1536 10),
        data = Some (member_ex ''rec2/rec2.data'' 2048 50)\<rparr> # []
   \<and> list_all (\<lambda>q. \<exists>f t. load_recording (env_invalid archive_ex) (Some ''a.sigmf'') False True
                          None q = (Inr f, t))
        [\<lparr>metadata = Some (member_ex ''rec1/rec1.meta'' 512 10),
          data = Some (member_ex ''rec1/rec1.data'' 1024 100)\<rparr>]
   \<and> validation_fails (env_invalid archive_ex)
        \<lparr>metadata = Some (member_ex ''rec2/rec2.meta'' 1536 10),
         data = Some (member_ex ''rec2/rec2.data'' 2048 50)\<rparr>
        (ValidationError ''invalid'')
   \<and> SigMFArchiveReader_init exts_ex (env_invalid archive_ex) (Some ''a.sigmf'') False True None =
       (Inl (ValidationError ''invalid''),
        [TarOpen, GetMembers,
         ReadMember (member_ex ''rec1/rec1.meta'' 512 10),
         SetDataFile \<lparr>df_path = Some ''a.sigmf'', df_buffer = None, df_skip_checksum = False,
                      df_offset = 1024, df_size_bytes = 100, df_map_readonly = True\<rparr>,
         ReadMember (member_ex ''rec2/rec2.meta'' 1536 10),
         TarClose])
   \<and> count_list (snd (SigMFArchiveReader_init exts_ex (env_invalid archive_ex)
                         (Some ''a.sigmf'') False True None)) TarClose = 1"
proof -
  let ?e = "env_invalid archive_ex"
  let ?r1 = "\<lparr>metadata = Some (member_ex ''rec1/rec1.meta'' 512 10),
              data = Some (member_ex ''rec1/rec1.data'' 1024 100)\<rparr>"
  let ?r2 = "\<lparr>metadata = Some (member_ex ''rec2/rec2.meta'' 1536 10),
              data = Some (member_ex ''rec2/rec2.data'' 2048 50)\<rparr>"
  have a: "fst (acquire exts_ex ?e (Some ''a.sigmf'') None) = Inr ()"
    by (simp add: run_defs env_invalid_def)
  have g: "getmembers ?e = Inr archive_ex"
    by (simp add: env_invalid_def env_ex_def)
  have d: "deref (group_members exts_ex archive_ex) = [?r1] @ ?r2 # []"
    by (simp add: run_defs archive_ex_def)
  have ok: "list_all (\<lambda>q. \<exists>f t. load_recording ?e (Some ''a.sigmf'') False True None q = (Inr f, t))
              [?r1]"
    by (simp add: run_defs env_invalid_def)
  have v: "validation_fails ?e ?r2 (ValidationError ''invalid'')"
    by (simp add: validation_fails_def run_defs env_invalid_def)
  have run: "SigMFArchiveReader_init exts_ex ?e (Some ''a.sigmf'') False True None =
       (Inl (ValidationError ''invalid''),
        [TarOpen, GetMembers,
         ReadMember (member_ex ''rec1/rec1.meta'' 512 10),
         SetDataFile \<lparr>df_path = Some ''a.sigmf'', df_buffer = None, df_skip_checksum = False,
                      df_offset = 1024, df_size_bytes = 100, df_map_readonly = True\<rparr>,
         ReadMember (member_ex ''rec2/rec2.meta'' 1536 10),
         TarClose])"
    by (simp add: run_defs env_invalid_def archive_ex_def)
  note inst = C6_validation_failure_aborts_and_closes[where x = exts_ex and e = ?e
      and path = "Some ''a.sigmf''" and skip_checksum = False and map_readonly = True
      and archive_buffer = None and membs = archive_ex and pre = "[?r1]" and r = ?r2
      and post = "[]" and err = "ValidationError ''invalid''"]
  from inst a have c: "count_list (snd (SigMFArchiveReader_init exts_ex ?e (Some ''a.sigmf'')
                        False True None)) TarClose = 1"
    by simp
  from inst a g d ok v have
    "fst (SigMFArchiveReader_init exts_ex ?e (Some ''a.sigmf'') False True None)
       = Inl (ValidationError ''invalid'')"
    by blast
  with a g d ok v run c show ?thesis by blast
qed

text \<open>
  C9. When the container opens, none of its entries is a dataset entry and
  the metadata of every metadata entry is read, constructed and validated
  without an exception, the constructor returns the metadata-only
  recordings: one file per metadata entry, in the order of these entries,
  the i-th file carrying the name derived from the i-th metadata entry and
  the bytes read from it, and no dataset reference. Its trace holds exactly
  one warning, the one about the missing dataset suffix. An archive without
  any entry is included.
\<close>

theorem C9_no_dataset_warns_once:
  assumes "fst (acquire x e path archive_buffer) = Inr ()"
    and "getmembers e = Inr membs"
    and "filter (is_data x) membs = []"
    and "list_all (metadata_loads e) (filter (is_meta x) membs)"
  shows "(case fst (SigMFArchiveReader_init x e path skip_checksum map_readonly archive_buffer) of
            Inl err \<Rightarrow> False
          | Inr sigmffiles \<Rightarrow>
              length sigmffiles = length (filter (is_meta x) membs)
              \<and> list_all2 (\<lambda>md f. sf_name f = dirname (fst (splitext (name md)))
                                   \<and> extract_read e md = Inr (sf_metadata f)
                                   \<and> sf_data f = None)
                  (filter (is_meta x) membs) sigmffiles)
       \<and> filter is_warning
           (snd (SigMFArchiveReader_init x e path skip_checksum map_readonly archive_buffer)) =
           [Warn (''No file with '' @ SIGMF_DATASET_EXT x @ '' extension found in archive!'')]"
proof -
  from init_no_dataset[OF assms, of skip_checksum map_readonly] obtain fs tr where
    run: "SigMFArchiveReader_init x e path skip_checksum map_readonly archive_buffer = (Inr fs, tr)"
    and len: "length fs = length (filter (is_meta x) membs)"
    and nodata: "list_all (\<lambda>f. sf_data f = None) fs"
    and warn: "filter is_warning tr =
         [Warn (''No file with '' @ SIGMF_DATASET_EXT x @ '' extension found in archive!'')]"
    by blast
  from open_Inr_metadata[OF run assms(2)] nodata
  have "list_all2 (\<lambda>md f. sf_name f = dirname (fst (splitext (name md)))
                         \<and> extract_read e md = Inr (sf_metadata f)
                         \<and> sf_data f = None)
          (filter (is_meta x) membs) fs"
    by (simp add: list_all2_conv_all_nth list_all_length)
  with run len warn show ?thesis by simp
qed

theorem C9_witness:
  "fst (acquire exts_ex (env_ex archive_meta_only) None (Some 0)) = Inr ()
   \<and> getmembers (env_ex archive_meta_only) = Inr archive_meta_only
   \<and> filter (is_data exts_ex) archive_meta_only = []
   \<and> filter (is_meta exts_ex) archive_meta_only =
       [member_ex ''a/a.meta'' 512 10, member_ex ''b/b.meta'' 1536 20,
        member_ex ''c/c.meta'' 2048 30]
   \<and> list_all (metadata_loads (env_ex archive_meta_only))
        (filter (is_meta exts_ex) archive_meta_only)
   \<and> SigMFArchiveReader_init exts_ex (env_ex archive_meta_only) None False True (Some 0) =
       (Inr [\<lparr>sf_name = ''a'', sf_metadata = ''a/a.meta'', sf_data = None\<rparr>,
             \<lparr>sf_name = ''b'', sf_metadata = ''b/b.meta'', sf_data = None\<rparr>,
             \<lparr>sf_name = ''c'', sf_metadata = ''c/c.meta'', sf_data = None\<rparr>],
        [TarOpen, GetMembers,
         Print [''A regular file'', ''notes.txt'', ''was found but ignored in the archive''],
         ReadMember (member_ex ''a/a.meta'' 512 10),
         ReadMember (member_ex ''b/b.meta'' 1536 20),
         ReadMember (member_ex ''c/c.meta'' 2048 30),
         Warn ''No file with .data extension found in archive!'', TarClose])
   \<and> list_all2 (\<lambda>md f. sf_name f = dirname (fst (splitext (name md)))
                         \<and> extract_read (env_ex archive_meta_only) md = Inr (sf_metadata f)
                         \<and> sf_data f = None)
        [member_ex ''a/a.meta'' 512 10, member_ex ''b/b.meta'' 1536 20,
         member_ex ''c/c.meta'' 2048 30]
        [\<lparr>sf_name = ''a'', sf_metadata = ''a/a.meta'', sf_data = None\<rparr>,
         \<lparr>sf_name = ''b'', sf_metadata = ''b/b.meta'', sf_data = None\<rparr>,
         \<lparr>sf_name = ''c'', sf_metadata = ''c/c.meta'', sf_data = None\<rparr>]
   \<and> filter is_warning
        (snd (SigMFArchiveReader_init exts_ex (env_ex archive_meta_only)
                None False True (Some 0))) =
       [Warn ''No file with .data extension found in archive!'']"
proof -
  let ?e = "env_ex archive_meta_only"
  let ?metas = "[member_ex ''a/a.meta'' 512 10, member_ex ''b/b.meta'' 1536 20,
                 member_ex ''c/c.meta'' 2048 30]"
  let ?fs = "[\<lparr>sf_name = ''a'', sf_metadata = ''a/a.meta'', sf_data = None\<rparr>,
              \<lparr>sf_name = ''b'', sf_metadata = ''b/b.meta'', sf_data = None\<rparr>,
              \<lparr>sf_name = ''c'', sf_metadata = ''c/c.meta'', sf_data = None\<rparr>]"
  have a: "fst (acquire exts_ex ?e None (Some 0)) = Inr ()" by (simp add: run_defs)
  have g: "getmembers ?e = Inr archive_meta_only" by (simp add: env_ex_def)
  have nd: "filter (is_data exts_ex) archive_meta_only = []"
    by (simp add: run_defs archive_meta_only_def)
  have metas: "filter (is_meta exts_ex) archive_meta_only = ?metas"
    by (simp add: run_defs archive_meta_only_def)
  have ml: "list_all (metadata_loads ?e) (filter (is_meta exts_ex) archive_meta_only)"
    unfolding metas by (simp add: metadata_loads_def run_defs)
  have run: "SigMFArchiveReader_init exts_ex ?e None False True (Some 0) =
       (Inr ?fs,
        [TarOpen, GetMembers,
         Print [''A regular file'', ''notes.txt'', ''was found but ignored in the archive''],
         ReadMember (member_ex ''a/a.meta'' 512 10),
         ReadMember (member_ex ''b/b.meta'' 1536 20),
         ReadMember (member_ex ''c/c.meta'' 2048 30),
         Warn ''No file with .data extension found in archive!'', TarClose])"
    by (simp add: run_defs archive_meta_only_def)
  note inst = C9_no_dataset_warns_once[OF a g nd ml, of False True]
  from inst have rel: "list_all2 (\<lambda>md f. sf_name f = dirname (fst (splitext (name md)))
                         \<and> extract_read ?e md = Inr (sf_metadata f)
                         \<and> sf_data f = None) ?metas ?fs"
    unfolding run metas by simp
  from inst have w: "filter is_warning
        (snd (SigMFArchiveReader_init exts_ex ?e None False True (Some 0))) =
       [Warn ''No file with .data extension found in archive!'']"
    by (simp add: exts_ex_def)
  from a g nd metas ml run rel w show ?thesis by blast
qed

text \<open>
  C3, as stated, fails: in a container that starts with a dataset entry, that
  entry is attached to the recording opened by the first metadata entry,
  which comes later in container order.
\<close>

theorem C3_counterexample:
  "archive_leading_data ! 0 = member_ex ''x.data'' 512 100
   \<and> archive_leading_data ! 1 = member_ex ''rec1/rec1.meta'' 1024 10
   \<and> deref (group_members exts_ex archive_leading_data) ! 0 =
       \<lparr>metadata = Some (member_ex ''rec1/rec1.meta'' 1024 10),
        data = Some (member_ex ''x.data'' 512 100)\<rparr>"
  by (simp add: group_leading_data) (simp add: archive_leading_data_def)

text \<open>
  C3, amended. For every recording but the first, and for the first one too
  when no dataset entry precedes the first metadata entry, the dataset entry
  attached to the recording occurs after the recording's metadata entry, with
  no metadata entry between the two: the entries split as
  \<open>pre @ m # mid @ d # post\<close>, where \<open>m\<close> is the recording's metadata entry
  (the k-th of the container for the k-th recording) and \<open>d\<close> its dataset
  entry.
\<close>

theorem C3_dataset_follows_metadata:
  assumes "0 < k \<or> list_all (\<lambda>y. \<not> is_data x y) (takeWhile (\<lambda>y. \<not> is_meta x y) membs)"
    and "k < length (deref (group_members x membs))"
    and "metadata (deref (group_members x membs) ! k) = Some m"
    and "data (deref (group_members x membs) ! k) = Some d"
  shows "\<exists>pre mid post. membs = pre @ m # mid @ d # post
           \<and> length (filter (is_meta x) pre) = k
           \<and> is_meta x m \<and> is_data x d
           \<and> list_all (\<lambda>y. \<not> is_meta x y) mid"
proof -
  from assms(2) have "k < length (filter (is_meta x) membs)"
    by (simp add: deref_groups_of groups_of_init_length)
  from filter_nth_split[OF this] obtain pre m0 rest where
    split: "membs = pre @ m0 # rest" and m0: "is_meta x m0"
    and k: "length (filter (is_meta x) pre) = k" by blast
  let ?seg = "takeWhile (\<lambda>y. \<not> is_meta x y) rest"
  have nth: "deref (group_members x membs) ! k =
      \<lparr>metadata = Some m0,
       data = (case last_data x ?seg of Some d' \<Rightarrow> Some d'
               | None \<Rightarrow> if filter (is_meta x) pre = [] then last_data x pre else None)\<rparr>"
    using groups_of_nth[OF m0, of pre rest] by (simp add: deref_groups_of split k)
  from nth assms(3) have m: "m = m0" by simp
  have seg: "last_data x ?seg = Some d"
  proof (cases "last_data x ?seg")
    case (Some d')
    with nth assms(4) show ?thesis by simp
  next
    case None
    with nth assms(4) have empty: "filter (is_meta x) pre = []" and pd: "last_data x pre = Some d"
      by (auto split: if_splits)
    from empty k have "k = 0" by simp
    with assms(1) have "list_all (\<lambda>y. \<not> is_data x y) (takeWhile (\<lambda>y. \<not> is_meta x y) membs)"
      by simp
    then have "list_all (\<lambda>y. \<not> is_data x y) pre"
      by (simp add: split takeWhile_no_meta_prefix[OF empty m0])
    then have "filter (is_data x) pre = []"
      by (simp add: filter_empty_conv list_all_iff)
    with pd show ?thesis by (simp add: last_data_None_iff[symmetric])
  qed
  from last_data_SomeD[OF seg] obtain mid bs where
    mid: "?seg = mid @ d # bs" and d: "is_data x d" by blast
  have "rest = ?seg @ dropWhile (\<lambda>y. \<not> is_meta x y) rest" by simp
  then have rest: "rest = mid @ d # (bs @ dropWhile (\<lambda>y. \<not> is_meta x y) rest)"
    by (simp add: mid)
  have "\<forall>y\<in>set ?seg. \<not> is_meta x y" by (auto dest: set_takeWhileD)
  then have nm: "list_all (\<lambda>y. \<not> is_meta x y) mid"
    by (simp add: mid list_all_iff)
  from split rest have "membs = pre @ m # mid @ d # (bs @ dropWhile (\<lambda>y. \<not> is_meta x y) rest)"
    by (simp add: m)
  with k m0 d nm show ?thesis unfolding m by blast
qed

theorem C3_witness:
  "(0::nat) < 2
   \<and> 2 < length (deref (group_members exts_ex archive_mixed))
   \<and> metadata (deref (group_members exts_ex archive_mixed) ! 2)
       = Some (member_ex ''rec3/rec3.meta'' 2048 10)
   \<and> data (deref (group_members exts_ex archive_mixed) ! 2)
       = Some (member_ex ''rec3/rec3.data'' 2560 50)
   \<and> (\<exists>pre mid post.
         archive_mixed = pre @ member_ex ''rec3/rec3.meta'' 2048 10 # mid @
                           member_ex ''rec3/rec3.data'' 2560 50 # post
         \<and> length (filter (is_meta exts_ex) pre) = 2
         \<and> is_meta exts_ex (member_ex ''rec3/rec3.meta'' 2048 10)
         \<and> is_data exts_ex (member_ex ''rec3/rec3.data'' 2560 50)
         \<and> list_all (\<lambda>y. \<not> is_meta exts_ex y) mid)"
proof -
  have h1: "(0::nat) < 2 \<or> list_all (\<lambda>y. \<not> is_data exts_ex y)
              (takeWhile (\<lambda>y. \<not> is_meta exts_ex y) archive_mixed)" by simp
  have h2: "2 < length (deref (group_members exts_ex archive_mixed))"
    by (simp add: group_mixed)
  have h3: "metadata (deref (group_members exts_ex archive_mixed) ! 2)
              = Some (member_ex ''rec3/rec3.meta'' 2048 10)"
    by (simp add: group_mixed)
  have h4: "data (deref (group_members exts_ex archive_mixed) ! 2)
              = Some (member_ex ''rec3/rec3.data'' 2560 50)"
    by (simp add: group_mixed)
  from C3_dataset_follows_metadata[OF h1 h2 h3 h4] h2 h3 h4 show ?thesis by simp
qed

text \<open>
  C4, as stated, fails: in a container that starts with a dataset entry, the
  first recording gets a dataset reference (that of the leading entry)
  although its metadata entry is followed by another metadata entry with no
  dataset entry in between.
\<close>

theorem C4_counterexample:
  "archive_leading_data = [member_ex ''x.data'' 512 100,
                           member_ex ''rec1/rec1.meta'' 1024 10,
                           member_ex ''rec2/rec2.meta'' 1536 10]
   \<and> map_sum id (map sf_data)
        (fst (SigMFArchiveReader_init exts_ex (env_ex archive_leading_data)
                (Some ''a.sigmf'') False True None)) =
       Inr [Some \<lparr>df_path = Some ''a.sigmf'', df_buffer = None, df_skip_checksum = False,
                   df_offset = 512, df_size_bytes = 100, df_map_readonly = True\<rparr>,
            None]"
  by (simp add: run_leading_data) (simp add: archive_leading_data_def)

text \<open>
  C4, amended. Let \<open>m\<close> be a metadata entry and \<open>k\<close> the number of metadata
  entries before it. If \<open>m\<close> is immediately followed by a dataset entry \<open>d\<close>
  and no further dataset entry comes before the next metadata entry, the
  k-th file has a dataset reference with the data offset and the length of
  \<open>d\<close>. If \<open>m\<close> is followed by another metadata entry with neither a
  dataset nor a metadata entry in between, the k-th file has no dataset
  reference, provided \<open>m\<close> is not the first metadata entry or no dataset entry
  precedes it.
\<close>

theorem C4_dataset_reference_of_adjacent_entries:
  assumes "getmembers e = Inr (pre @ m # rest)"
    and "is_meta x m"
    and "SigMFArchiveReader_init x e path skip_checksum map_readonly archive_buffer
           = (Inr sigmffiles, tr)"
  shows "(rest = d # rest1 \<and> is_data x d
            \<and> list_all (\<lambda>y. \<not> is_data x y) (takeWhile (\<lambda>y. \<not> is_meta x y) rest1)
          \<longrightarrow> sf_data (sigmffiles ! length (filter (is_meta x) pre)) =
                Some \<lparr>df_path = path, df_buffer = archive_buffer,
                      df_skip_checksum = skip_checksum,
                      df_offset = offset_data d, df_size_bytes = size_m d,
                      df_map_readonly = map_readonly\<rparr>)
       \<and> (rest = mid @ m' # rest2 \<and> is_meta x m'
            \<and> list_all (\<lambda>y. \<not> is_meta x y \<and> \<not> is_data x y) mid
            \<and> (filter (is_meta x) pre \<noteq> [] \<or> filter (is_data x) pre = [])
          \<longrightarrow> sf_data (sigmffiles ! length (filter (is_meta x) pre)) = None)"
proof (intro conjI impI)
  let ?k = "length (filter (is_meta x) pre)"
  note b = open_nth[OF assms(3) assms(1) assms(2)]
  {
    assume h: "rest = d # rest1 \<and> is_data x d
            \<and> list_all (\<lambda>y. \<not> is_data x y) (takeWhile (\<lambda>y. \<not> is_meta x y) rest1)"
    then have nm: "\<not> is_meta x d" by (simp add: is_data_def is_meta_def)
    from h have "filter (is_data x) (takeWhile (\<lambda>y. \<not> is_meta x y) rest1) = []"
      by (simp add: filter_empty_conv list_all_iff)
    then have "last_data x (takeWhile (\<lambda>y. \<not> is_meta x y) rest1) = None"
      by (simp add: last_data_None_iff)
    with h nm have "last_data x (takeWhile (\<lambda>y. \<not> is_meta x y) rest) = Some d"
      by (simp add: last_data_Cons)
    with b show "sf_data (sigmffiles ! ?k) =
                Some \<lparr>df_path = path, df_buffer = archive_buffer,
                      df_skip_checksum = skip_checksum,
                      df_offset = offset_data d, df_size_bytes = size_m d,
                      df_map_readonly = map_readonly\<rparr>"
      by (simp add: built_from_def)
  }
  {
    assume h: "rest = mid @ m' # rest2 \<and> is_meta x m'
            \<and> list_all (\<lambda>y. \<not> is_meta x y \<and> \<not> is_data x y) mid
            \<and> (filter (is_meta x) pre \<noteq> [] \<or> filter (is_data x) pre = [])"
    then have nm: "list_all (\<lambda>y. \<not> is_meta x y) mid" and nd: "filter (is_data x) mid = []"
      by (simp_all add: list_all_iff filter_empty_conv)
    from h have seg: "takeWhile (\<lambda>y. \<not> is_meta x y) rest = mid"
      using takeWhile_no_meta_segment[OF nm, of m' rest2] by simp
    from nd have l: "last_data x mid = None" by (simp add: last_data_None_iff)
    from h have "(if filter (is_meta x) pre = [] then last_data x pre else None) = None"
      by (auto simp: last_data_None_iff)
    with b seg l show "sf_data (sigmffiles ! ?k) = None"
      by (simp add: built_from_def)
  }
qed

theorem C4_witness:
  "getmembers (env_ex archive_mixed) =
     Inr ([] @ member_ex ''rec1/rec1.meta'' 512 10 #
          member_ex ''rec1/rec1.data'' 1024 100 #
          [member_ex ''rec2/rec2.meta'' 1536 10,
           member_ex ''rec3/rec3.meta'' 2048 10, member_ex ''rec3/rec3.data'' 2560 50])
   \<and> getmembers (env_ex archive_mixed) =
     Inr ([member_ex ''rec1/rec1.meta'' 512 10, member_ex ''rec1/rec1.data'' 1024 100] @
          member_ex ''rec2/rec2.meta'' 1536 10 #
          [] @ member_ex ''rec3/rec3.meta'' 2048 10 # [member_ex ''rec3/rec3.data'' 2560 50])
   \<and> is_meta exts_ex (member_ex ''rec1/rec1.meta'' 512 10)
   \<and> is_data exts_ex (member_ex ''rec1/rec1.data'' 1024 100)
   \<and> is_meta exts_ex (member_ex ''rec2/rec2.meta'' 1536 10)
   \<and> is_meta exts_ex (member_ex ''rec3/rec3.meta'' 2048 10)
   \<and> \<not> isl (fst (SigMFArchiveReader_init exts_ex (env_ex archive_mixed) (Some ''a.sigmf'')
                  False True None))
   \<and> sf_data (projr (fst (SigMFArchiveReader_init exts_ex (env_ex archive_mixed)
                  (Some ''a.sigmf'') False True None)) ! 0) =
       Some \<lparr>df_path = Some ''a.sigmf'', df_buffer = None, df_skip_checksum = False,
             df_offset = 1024, df_size_bytes = 100, df_map_readonly = True\<rparr>
   \<and> sf_data (projr (fst (SigMFArchiveReader_init exts_ex (env_ex archive_mixed)
                  (Some ''a.sigmf'') False True None)) ! 1) = None"
proof -
  let ?m1 = "member_ex ''rec1/rec1.meta'' 512 10"
  let ?d1 = "member_ex ''rec1/rec1.data'' 1024 100"
  let ?m2 = "member_ex ''rec2/rec2.meta'' 1536 10"
  let ?m3 = "member_ex ''rec3/rec3.meta'' 2048 10"
  let ?d3 = "member_ex ''rec3/rec3.data'' 2560 50"
  have g1: "getmembers (env_ex archive_mixed) = Inr ([] @ ?m1 # ?d1 # [?m2, ?m3, ?d3])"
    by (simp add: env_ex_def archive_mixed_def)
  have g2: "getmembers (env_ex archive_mixed) = Inr ([?m1, ?d1] @ ?m2 # [] @ ?m3 # [?d3])"
    by (simp add: env_ex_def archive_mixed_def)
  have m1: "is_meta exts_ex ?m1" and d1: "is_data exts_ex ?d1"
    and m2: "is_meta exts_ex ?m2" and m3: "is_meta exts_ex ?m3"
    by (simp_all add: run_defs)
  have seg: "list_all (\<lambda>y. \<not> is_data exts_ex y)
               (takeWhile (\<lambda>y. \<not> is_meta exts_ex y) [?m2, ?m3, ?d3])"
    using m2 by simp
  have pre: "filter (is_meta exts_ex) [?m1, ?d1] \<noteq> []"
    using m1 by simp
  have k1: "length (filter (is_meta exts_ex) []) = 0" by simp
  have k2: "length (filter (is_meta exts_ex) [?m1, ?d1]) = 1"
    by (simp add: run_defs)
  from C4_dataset_reference_of_adjacent_entries[OF g1 m1 run_mixed,
      where d = ?d1 and ?rest1.0 = "[?m2, ?m3, ?d3]"] d1 seg
  have r1: "sf_data (projr (fst (SigMFArchiveReader_init exts_ex (env_ex archive_mixed)
                  (Some ''a.sigmf'') False True None)) ! 0) =
       Some \<lparr>df_path = Some ''a.sigmf'', df_buffer = None, df_skip_checksum = False,
             df_offset = 1024, df_size_bytes = 100, df_map_readonly = True\<rparr>"
    by (simp add: run_mixed member_ex_def)
  from C4_dataset_reference_of_adjacent_entries[OF g2 m2 run_mixed,
      where mid = "[]" and m' = ?m3 and ?rest2.0 = "[?d3]"] m3 pre
  have r2: "sf_data (projr (fst (SigMFArchiveReader_init exts_ex (env_ex archive_mixed)
                  (Some ''a.sigmf'') False True None)) ! 1) = None"
    by (simp add: run_mixed)
  have ok: "\<not> isl (fst (SigMFArchiveReader_init exts_ex (env_ex archive_mixed) (Some ''a.sigmf'')
                  False True None))"
    by (simp add: run_mixed)
  from g1 g2 m1 d1 m2 m3 ok r1 r2 show ?thesis by blast
qed

text \<open>
  C10. Of the dataset entries that follow a metadata entry before the next
  metadata entry, the last one gives the recording its dataset reference.
  The earlier ones leave no mark at all: a dataset entry that is followed by
  another dataset entry, with no metadata entry in between, can be removed
  from the container without changing the outcome of the constructor or its
  trace, so nothing is raised, printed or warned on its account.
\<close>

theorem C10_last_dataset_entry_wins:
  "(getmembers e = Inr (pre @ m # rest) \<longrightarrow> is_meta x m \<longrightarrow>
      filter (is_data x) (takeWhile (\<lambda>y. \<not> is_meta x y) rest) = ds @ [d] \<longrightarrow>
      SigMFArchiveReader_init x e path skip_checksum map_readonly archive_buffer
        = (Inr sigmffiles, tr) \<longrightarrow>
      sf_data (sigmffiles ! length (filter (is_meta x) pre)) =
        Some \<lparr>df_path = path, df_buffer = archive_buffer, df_skip_checksum = skip_checksum,
              df_offset = offset_data d, df_size_bytes = size_m d,
              df_map_readonly = map_readonly\<rparr>)
   \<and> (is_data x d1 \<longrightarrow> is_data x d2 \<longrightarrow> list_all (\<lambda>y. \<not> is_meta x y) mid \<longrightarrow>
      SigMFArchiveReader_init x (e\<lparr>getmembers := Inr (before @ d1 # mid @ d2 # after)\<rparr>)
          path skip_checksum map_readonly archive_buffer =
      SigMFArchiveReader_init x (e\<lparr>getmembers := Inr (before @ mid @ d2 # after)\<rparr>)
          path skip_checksum map_readonly archive_buffer)"
proof (intro conjI impI)
  assume g: "getmembers e = Inr (pre @ m # rest)" and m: "is_meta x m"
    and ds: "filter (is_data x) (takeWhile (\<lambda>y. \<not> is_meta x y) rest) = ds @ [d]"
    and run: "SigMFArchiveReader_init x e path skip_checksum map_readonly archive_buffer
                = (Inr sigmffiles, tr)"
  from last_data_snoc[OF ds] open_nth[OF run g m]
  show "sf_data (sigmffiles ! length (filter (is_meta x) pre)) =
        Some \<lparr>df_path = path, df_buffer = archive_buffer, df_skip_checksum = skip_checksum,
              df_offset = offset_data d, df_size_bytes = size_m d,
              df_map_readonly = map_readonly\<rparr>"
    by (simp add: built_from_def)
next
  assume d1: "is_data x d1" and d2: "is_data x d2" and mid: "list_all (\<lambda>y. \<not> is_meta x y) mid"
  have "deref (group_members x (before @ d1 # mid @ d2 # after)) =
        deref (group_members x (before @ mid @ d2 # after))"
    by (simp only: deref_group_members group_run_drop_overwritten[OF d1 d2 mid])
  moreover have "printed (group_members x (before @ d1 # mid @ d2 # after)) =
        printed (group_members x (before @ mid @ d2 # after))"
    by (simp add: group_members_printed_eq is_data_prints_nothing[OF d1])
  ultimately show
    "SigMFArchiveReader_init x (e\<lparr>getmembers := Inr (before @ d1 # mid @ d2 # after)\<rparr>)
          path skip_checksum map_readonly archive_buffer =
     SigMFArchiveReader_init x (e\<lparr>getmembers := Inr (before @ mid @ d2 # after)\<rparr>)
          path skip_checksum map_readonly archive_buffer"
    by (rule init_same_grouping)
qed

theorem C10_witness:
  "getmembers (env_ex archive_two_data) =
     Inr ([] @ member_ex ''rec1/rec1.meta'' 512 10 #
          [member_ex ''rec1/a.data'' 1024 100, member_ex ''rec1/b.data'' 1536 50])
   \<and> is_meta exts_ex (member_ex ''rec1/rec1.meta'' 512 10)
   \<and> filter (is_data exts_ex)
        (takeWhile (\<lambda>y. \<not> is_meta exts_ex y)
           [member_ex ''rec1/a.data'' 1024 100, member_ex ''rec1/b.data'' 1536 50]) =
       [member_ex ''rec1/a.data'' 1024 100] @ [member_ex ''rec1/b.data'' 1536 50]
   \<and> is_data exts_ex (member_ex ''rec1/a.data'' 1024 100)
   \<and> is_data exts_ex (member_ex ''rec1/b.data'' 1536 50)
   \<and> map_sum id (map sf_data)
        (fst (SigMFArchiveReader_init exts_ex (env_ex archive_two_data)
                (Some ''a.sigmf'') False True None)) =
       Inr [Some \<lparr>df_path = Some ''a.sigmf'', df_buffer = None, df_skip_checksum = False,
                   df_offset = 1536, df_size_bytes = 50, df_map_readonly = True\<rparr>]
   \<and> SigMFArchiveReader_init exts_ex
        ((env_ex archive_two_data)\<lparr>getmembers :=
            Inr ([member_ex ''rec1/rec1.meta'' 512 10] @ member_ex ''rec1/a.data'' 1024 100 #
                 [] @ member_ex ''rec1/b.data'' 1536 50 # [])\<rparr>)
        (Some ''a.sigmf'') False True None =
      SigMFArchiveReader_init exts_ex
        ((env_ex archive_two_data)\<lparr>getmembers :=
            Inr ([member_ex ''rec1/rec1.meta'' 512 10] @ [] @
                 member_ex ''rec1/b.data'' 1536 50 # [])\<rparr>)
        (Some ''a.sigmf'') False True None"
proof -
  let ?m = "member_ex ''rec1/rec1.meta'' 512 10"
  let ?a = "member_ex ''rec1/a.data'' 1024 100"
  let ?b = "member_ex ''rec1/b.data'' 1536 50"
  let ?e = "env_ex archive_two_data"
  let ?fs = "[\<lparr>sf_name = ''rec1'', sf_metadata = ''rec1/rec1.meta'',
          sf_data = Some \<lparr>df_path = Some ''a.sigmf'', df_buffer = None, df_skip_checksum = False,
                          df_offset = 1536, df_size_bytes = 50, df_map_readonly = True\<rparr>\<rparr>]"
  let ?tr = "[TarOpen, GetMembers,
     ReadMember (member_ex ''rec1/rec1.meta'' 512 10),
     SetDataFile \<lparr>df_path = Some ''a.sigmf'', df_buffer = None, df_skip_checksum = False,
                  df_offset = 1536, df_size_bytes = 50, df_map_readonly = True\<rparr>,
     TarClose]"
  have g: "getmembers ?e = Inr ([] @ ?m # [?a, ?b])"
    by (simp add: env_ex_def archive_two_data_def)
  have m: "is_meta exts_ex ?m" and a: "is_data exts_ex ?a" and b: "is_data exts_ex ?b"
    by (simp_all add: run_defs)
  have ds: "filter (is_data exts_ex) (takeWhile (\<lambda>y. \<not> is_meta exts_ex y) [?a, ?b]) = [?a] @ [?b]"
    by (simp add: run_defs)
  have mid: "list_all (\<lambda>y. \<not> is_meta exts_ex y) []" by simp
  note inst = C10_last_dataset_entry_wins[where x = exts_ex and e = ?e and pre = "[]" and m = ?m
      and rest = "[?a, ?b]" and ds = "[?a]" and d = ?b and path = "Some ''a.sigmf''"
      and skip_checksum = False and map_readonly = True and archive_buffer = None
      and ?d1.0 = ?a and ?d2.0 = ?b and mid = "[]" and before = "[?m]" and after = "[]"
      and sigmffiles = ?fs and tr = ?tr]
  from inst g m ds run_two_data
  have "sf_data (?fs ! length (filter (is_meta exts_ex) [])) =
        Some \<lparr>df_path = Some ''a.sigmf'', df_buffer = None, df_skip_checksum = False,
              df_offset = offset_data ?b, df_size_bytes = size_m ?b, df_map_readonly = True\<rparr>"
    by blast
  then have "map_sum id (map sf_data)
        (fst (SigMFArchiveReader_init exts_ex ?e (Some ''a.sigmf'') False True None)) =
       Inr [Some \<lparr>df_path = Some ''a.sigmf'', df_buffer = None, df_skip_checksum = False,
                   df_offset = 1536, df_size_bytes = 50, df_map_readonly = True\<rparr>]"
    by (simp add: run_two_data)
  moreover from inst a b mid have
    "SigMFArchiveReader_init exts_ex (?e\<lparr>getmembers := Inr ([?m] @ ?a # [] @ ?b # [])\<rparr>)
        (Some ''a.sigmf'') False True None =
     SigMFArchiveReader_init exts_ex (?e\<lparr>getmembers := Inr ([?m] @ [] @ ?b # [])\<rparr>)
        (Some ''a.sigmf'') False True None"
    by blast
  ultimately show ?thesis using g m ds a b by blast
qed

end
